theory Spec2Isabelle
  imports Complex_Main
begin

section \<open>Numbers\<close>

text \<open>
  The analyzer computes with IEEE doubles through pandas and numpy. The model uses exact
  real arithmetic in place of rounded double arithmetic and keeps the special values a
  double can take besides a finite number: the negative zero, the two infinities and
  not-a-number. \<open>Fin 0\<close> is the positive zero and \<open>NZero\<close> the negative one; the two
  compare equal and differ as divisors. Prices and volumes of the input frame are finite
  numbers, a zero among them being the positive zero. A value the code computes by
  rounding (a mean, a quotient) can differ from the exact value in its last digits; the
  statements below that depend on such a value name the computed quantity instead of
  assuming it exact.
\<close>

datatype fl = Fin real | NZero | PInf | NInf | NaN

fun fneg :: "fl \<Rightarrow> fl" where
  "fneg (Fin a) = (if a = 0 then NZero else Fin (- a))"
| "fneg NZero = Fin 0"
| "fneg PInf = NInf"
| "fneg NInf = PInf"
| "fneg NaN = NaN"

text \<open>A sum is the negative zero only when both summands are.\<close>

fun fadd :: "fl \<Rightarrow> fl \<Rightarrow> fl" where
  "fadd (Fin a) (Fin b) = Fin (a + b)"
| "fadd (Fin a) NZero = Fin a"
| "fadd (Fin a) PInf = PInf"
| "fadd (Fin a) NInf = NInf"
| "fadd NZero (Fin b) = Fin b"
| "fadd NZero NZero = NZero"
| "fadd NZero PInf = PInf"
| "fadd NZero NInf = NInf"
| "fadd PInf (Fin b) = PInf"
| "fadd PInf NZero = PInf"
| "fadd PInf PInf = PInf"
| "fadd PInf NInf = NaN"
| "fadd NInf (Fin b) = NInf"
| "fadd NInf NZero = NInf"
| "fadd NInf PInf = NaN"
| "fadd NInf NInf = NInf"
| "fadd NaN b = NaN"
| "fadd a NaN = NaN"

definition fsub :: "fl \<Rightarrow> fl \<Rightarrow> fl" where
  "fsub a b = fadd a (fneg b)"

text \<open>A zero product takes the sign of its factors: negative when exactly one is.\<close>

fun fmul :: "fl \<Rightarrow> fl \<Rightarrow> fl" where
  "fmul (Fin a) (Fin b) = (if a * b = 0 \<and> (a < 0 \<or> b < 0) then NZero else Fin (a * b))"
| "fmul (Fin a) NZero = (if a < 0 then Fin 0 else NZero)"
| "fmul (Fin a) PInf = (if a = 0 then NaN else if 0 < a then PInf else NInf)"
| "fmul (Fin a) NInf = (if a = 0 then NaN else if 0 < a then NInf else PInf)"
| "fmul NZero (Fin b) = (if b < 0 then Fin 0 else NZero)"
| "fmul NZero NZero = Fin 0"
| "fmul NZero PInf = NaN"
| "fmul NZero NInf = NaN"
| "fmul PInf (Fin b) = (if b = 0 then NaN else if 0 < b then PInf else NInf)"
| "fmul PInf NZero = NaN"
| "fmul PInf PInf = PInf"
| "fmul PInf NInf = NInf"
| "fmul NInf (Fin b) = (if b = 0 then NaN else if 0 < b then NInf else PInf)"
| "fmul NInf NZero = NaN"
| "fmul NInf PInf = NInf"
| "fmul NInf NInf = PInf"
| "fmul NaN b = NaN"
| "fmul a NaN = NaN"

text \<open>
  Division of doubles never raises in numpy or pandas: a zero divisor gives an infinity
  whose sign is the product of the signs of numerator and divisor (so a positive number
  over the negative zero is the negative infinity), or not-a-number for \<open>0 / 0\<close>.
\<close>

fun fdiv :: "fl \<Rightarrow> fl \<Rightarrow> fl" where
  "fdiv (Fin a) (Fin b) =
     (if b \<noteq> 0 then (if a = 0 \<and> b < 0 then NZero else Fin (a / b))
      else if a = 0 then NaN else if 0 < a then PInf else NInf)"
| "fdiv (Fin a) NZero = (if a = 0 then NaN else if 0 < a then NInf else PInf)"
| "fdiv (Fin a) PInf = (if a < 0 then NZero else Fin 0)"
| "fdiv (Fin a) NInf = (if a < 0 then Fin 0 else NZero)"
| "fdiv NZero (Fin b) = (if b = 0 then NaN else if 0 < b then NZero else Fin 0)"
| "fdiv NZero NZero = NaN"
| "fdiv NZero PInf = NZero"
| "fdiv NZero NInf = Fin 0"
| "fdiv PInf (Fin b) = (if 0 \<le> b then PInf else NInf)"
| "fdiv PInf NZero = NInf"
| "fdiv NInf (Fin b) = (if 0 \<le> b then NInf else PInf)"
| "fdiv NInf NZero = PInf"
| "fdiv PInf PInf = NaN"
| "fdiv PInf NInf = NaN"
| "fdiv NInf PInf = NaN"
| "fdiv NInf NInf = NaN"
| "fdiv NaN b = NaN"
| "fdiv a NaN = NaN"

text \<open>Every comparison with not-a-number is false; the two zeros compare equal.\<close>

fun flt :: "fl \<Rightarrow> fl \<Rightarrow> bool" where
  "flt (Fin a) (Fin b) = (a < b)"
| "flt (Fin a) NZero = (a < 0)"
| "flt (Fin a) PInf = True"
| "flt (Fin a) NInf = False"
| "flt NZero (Fin b) = (0 < b)"
| "flt NZero NZero = False"
| "flt NZero PInf = True"
| "flt NZero NInf = False"
| "flt PInf b = False"
| "flt NInf (Fin b) = True"
| "flt NInf NZero = True"
| "flt NInf PInf = True"
| "flt NInf NInf = False"
| "flt NaN b = False"
| "flt a NaN = False"

definition fgt :: "fl \<Rightarrow> fl \<Rightarrow> bool" where
  "fgt a b = flt b a"

text \<open>Rounding to the nearest integer, ties to the even neighbour.\<close>

definition rint :: "real \<Rightarrow> int" where
  "rint x =
     (let f = \<lfloor>x\<rfloor>; d = x - of_int f
      in if d < 1 / 2 then f else if 1 / 2 < d then f + 1 else if even f then f else f + 1)"

text \<open>\<^verbatim>\<open>round(x, ndigits)\<close>: the special values pass through unchanged.\<close>

definition py_round :: "fl \<Rightarrow> nat \<Rightarrow> fl" where
  "py_round x ndigits =
     (case x of Fin v \<Rightarrow> Fin (of_int (rint (v * 10 ^ ndigits)) / 10 ^ ndigits) | _ \<Rightarrow> x)"

section \<open>Faults\<close>

datatype fault = IndexError | ValueError

fun str_of_fault :: "fault \<Rightarrow> string" where
  "str_of_fault IndexError = ''single positional indexer is out-of-bounds''"
| "str_of_fault ValueError = ''span must satisfy: span >= 1''"

definition fbind :: "fault + 'a \<Rightarrow> ('a \<Rightarrow> fault + 'b) \<Rightarrow> fault + 'b" where
  "fbind m f = (case m of Inl e \<Rightarrow> Inl e | Inr v \<Rightarrow> f v)"

text \<open>\<^verbatim>\<open>series.iloc[i]\<close>: a negative position counts from the end.\<close>

definition iloc :: "'a list \<Rightarrow> int \<Rightarrow> fault + 'a" where
  "iloc xs i =
     (if 0 \<le> i \<and> i < int (length xs) then Inr (xs ! nat i)
      else if i < 0 \<and> - int (length xs) \<le> i then Inr (xs ! nat (int (length xs) + i))
      else Inl IndexError)"

section \<open>Data frame\<close>

record bar =
  Open :: real
  High :: real
  Low :: real
  Close :: real
  Volume :: real

text \<open>
  \<^verbatim>\<open>df.tail(n)\<close>: the last \<open>n\<close> rows; no row for \<open>n = 0\<close>; for a negative \<open>n\<close>
  every row but the first \<open>-n\<close>.
\<close>

definition tail :: "int \<Rightarrow> 'a list \<Rightarrow> 'a list" where
  "tail n xs =
     (if n = 0 then [] else if 0 < n then drop (length xs - nat n) xs else drop (nat (- n)) xs)"

section \<open>Indicator library\<close>

text \<open>
  \<^verbatim>\<open>data.ewm(span=period, adjust=False).mean()\<close>. The library rejects a span below 1,
  takes \<open>alpha = 2 / (span + 1)\<close>, starts its accumulator at the first value and
  updates it once per further value, emitting the accumulator after each update.
\<close>

fun ewm_loop :: "real \<Rightarrow> real \<Rightarrow> real list \<Rightarrow> real list" where
  "ewm_loop alpha weighted [] = []"
| "ewm_loop alpha weighted (cur # vals) =
     (let weighted' = (1 - alpha) * weighted + alpha * cur
      in weighted' # ewm_loop alpha weighted' vals)"

definition ewm_values :: "real \<Rightarrow> real list \<Rightarrow> real list" where
  "ewm_values alpha vals = (case vals of [] \<Rightarrow> [] | v # rest \<Rightarrow> v # ewm_loop alpha v rest)"

definition ewm_mean :: "int \<Rightarrow> real list \<Rightarrow> fault + real list" where
  "ewm_mean spn vals =
     (if spn < 1 then Inl ValueError
      else let alpha = 2 / (real_of_int spn + 1) in Inr (ewm_values alpha vals))"

definition calculate_ema :: "real list \<Rightarrow> int \<Rightarrow> fault + real list" where
  "calculate_ema data period = ewm_mean period data"

text \<open>
  \<^verbatim>\<open>series.rolling(window=w)\<close>: position \<open>i\<close> sees the \<open>w\<close> values ending at \<open>i\<close>, and
  is not-a-number while fewer than \<open>w\<close> values are there.
\<close>

definition rolling :: "nat \<Rightarrow> ('a list \<Rightarrow> fl) \<Rightarrow> 'a list \<Rightarrow> fl list" where
  "rolling w f xs =
     map (\<lambda>i. if i + 1 < w then NaN else f (take w (drop (i + 1 - w) xs))) [0..<length xs]"

text \<open>
  The exact average. The code's \<^verbatim>\<open>mean()\<close> is this value rounded to a double, so the
  mean of a constant column can fall just beside the constant.
\<close>

definition mean :: "real list \<Rightarrow> real" where
  "mean xs = sum_list xs / real (length xs)"

definition rolling_mean :: "nat \<Rightarrow> real list \<Rightarrow> fl list" where
  "rolling_mean w xs = rolling w (\<lambda>ys. Fin (mean ys)) xs"

text \<open>The sample standard deviation (one degree of freedom removed).\<close>

definition sample_var :: "real list \<Rightarrow> real" where
  "sample_var ys = sum_list (map (\<lambda>y. (y - mean ys)\<^sup>2) ys) / (real (length ys) - 1)"

definition rolling_std :: "nat \<Rightarrow> real list \<Rightarrow> fl list" where
  "rolling_std w xs =
     rolling w (\<lambda>ys. if length ys \<le> 1 then NaN else Fin (sqrt (sample_var ys))) xs"

text \<open>
  \<^verbatim>\<open>data.diff()\<close>: the first position has no predecessor and is not-a-number, written
  \<open>None\<close> here. \<^verbatim>\<open>delta.where(cond, 0)\<close> keeps a value where the condition holds and
  puts 0 elsewhere; not-a-number fails the condition.
\<close>

definition diff :: "real list \<Rightarrow> real option list" where
  "diff xs = (case xs of [] \<Rightarrow> [] | x # rest \<Rightarrow> None # map2 (\<lambda>a b. Some (b - a)) xs rest)"

definition where_else_0 :: "(real \<Rightarrow> bool) \<Rightarrow> real option list \<Rightarrow> real list" where
  "where_else_0 cond ds =
     map (\<lambda>d. case d of None \<Rightarrow> 0 | Some v \<Rightarrow> if cond v then v else 0) ds"

text \<open>
  The rolling mean of a series that holds negated values. Line 29 negates the kept
  differences, which turns every zero among them into the negative zero. The library's
  rolling mean of a window whose values are all the same is that value, so a window of
  negative zeros averages to the negative zero; any other window of such values has a
  positive sum. (Other values than finite numbers and negative zeros do not occur there.)
\<close>

fun fl_value :: "fl \<Rightarrow> real" where
  "fl_value (Fin a) = a"
| "fl_value NZero = 0"
| "fl_value PInf = 0"
| "fl_value NInf = 0"
| "fl_value NaN = 0"

fun fl_finite :: "fl \<Rightarrow> bool" where
  "fl_finite (Fin a) = True"
| "fl_finite NZero = True"
| "fl_finite PInf = False"
| "fl_finite NInf = False"
| "fl_finite NaN = False"

definition window_mean :: "fl list \<Rightarrow> fl" where
  "window_mean ws =
     (if list_all (\<lambda>x. x = NZero) ws then NZero
      else if list_all fl_finite ws then Fin (sum_list (map fl_value ws) / real (length ws))
      else NaN)"

definition rs_series :: "real list \<Rightarrow> nat \<Rightarrow> fl list" where
  "rs_series data period =
     (let delta = diff data;
          gain = rolling_mean period (where_else_0 (\<lambda>d. 0 < d) delta);
          loss = rolling period window_mean
                   (map (\<lambda>d. fneg (Fin d)) (where_else_0 (\<lambda>d. d < 0) delta))
      in map2 fdiv gain loss)"

definition calculate_rsi :: "real list \<Rightarrow> nat \<Rightarrow> fl list" where
  "calculate_rsi data period =
     map (\<lambda>rs. fsub (Fin 100) (fdiv (Fin 100) (fadd (Fin 1) rs))) (rs_series data period)"

definition calculate_macd :: "real list \<Rightarrow> fault + (real list \<times> real list)" where
  "calculate_macd data =
     fbind (ewm_mean 12 data) (\<lambda>exp1.
     fbind (ewm_mean 26 data) (\<lambda>exp2.
       let macd = map2 (-) exp1 exp2
       in fbind (ewm_mean 9 macd) (\<lambda>signal. Inr (macd, signal))))"

definition calculate_bollinger_bands :: "real list \<Rightarrow> nat \<Rightarrow> fl list \<times> fl list" where
  "calculate_bollinger_bands data period =
     (let sma = rolling_mean period data;
          std = rolling_std period data;
          upper_band = map2 fadd sma (map (\<lambda>s. fmul s (Fin 2)) std);
          lower_band = map2 fsub sma (map (\<lambda>s. fmul s (Fin 2)) std)
      in (upper_band, lower_band))"

section \<open>Timeframe scorer\<close>

datatype signal = BUY | SELL | NEUTRAL

datatype pyval = Num fl | IntV int | Str string

type_synonym dict = "string \<rightharpoonup> pyval"

definition volume_ratio_of :: "real \<Rightarrow> real \<Rightarrow> real" where
  "volume_ratio_of current_volume avg_volume =
     (if 0 < avg_volume then current_volume / avg_volume else 1)"

definition volume_strength_of :: "real \<Rightarrow> nat" where
  "volume_strength_of volume_ratio =
     (if 15 / 10 < volume_ratio then 3
      else if 12 / 10 < volume_ratio then 2
      else if 1 < volume_ratio then 1
      else 0)"

definition ema_rule :: "fl \<Rightarrow> int list" where
  "ema_rule ema_diff_percent =
     (if fgt ema_diff_percent (Fin (5 / 100)) then [1]
      else if flt ema_diff_percent (Fin (- (5 / 100))) then [- 1]
      else [])"

definition macd_rule :: "real \<Rightarrow> real \<Rightarrow> int list" where
  "macd_rule macd_diff macd_trend =
     (if 0 < macd_diff then 1 # (if 0 < macd_trend then [1] else [])
      else - 1 # (if macd_trend < 0 then [- 1] else []))"

definition rsi_rule :: "fl \<Rightarrow> int list" where
  "rsi_rule last_rsi =
     (if flt last_rsi (Fin 35) then [2, 1]
      else if fgt last_rsi (Fin 65) then [- 2, - 1]
      else if flt last_rsi (Fin 45) then [1]
      else if fgt last_rsi (Fin 55) then [- 1]
      else [])"

definition bb_rule :: "real \<Rightarrow> fl \<Rightarrow> fl \<Rightarrow> int list \<times> string" where
  "bb_rule current_price lower upper =
     (if flt (Fin current_price) lower then ([2], ''oversold'')
      else if fgt (Fin current_price) upper then ([- 2], ''overbought'')
      else ([], ''normal''))"

definition strength_of :: "int list \<Rightarrow> nat \<Rightarrow> real" where
  "strength_of trend_signals volume_strength =
     real_of_int (sum_list trend_signals) * (1 + real volume_strength * (2 / 10))"

definition confidence_of :: "real \<Rightarrow> real" where
  "confidence_of trend_strength = min 95 (max 50 (50 + \<bar>trend_strength\<bar> * 5))"

definition signal_of :: "real \<Rightarrow> signal" where
  "signal_of trend_strength =
     (if 12 / 10 \<le> \<bar>trend_strength\<bar> then (if 0 < trend_strength then BUY else SELL)
      else NEUTRAL)"

text \<open>The local variables of one analysis that the result is assembled from.\<close>

record scoring =
  price_change :: fl
  volume_ratio :: real
  volume_strength :: nat
  ema_diff_percent :: fl
  macd_value :: real
  macd_diff :: real
  macd_trend :: real
  last_rsi :: fl
  upper_last :: fl
  lower_last :: fl
  ema_signals :: "int list"
  macd_signals :: "int list"
  rsi_signals :: "int list"
  bb_signals :: "int list"
  bb_position :: string
  trend_signals :: "int list"
  trend_strength :: real

text \<open>
  The body of the \<^verbatim>\<open>try\<close> block of \<^verbatim>\<open>analyze_timeframe\<close>, up to the trend strength.
  The rules append to one list in the order EMA, MACD, RSI, Bollinger.
\<close>

definition score_window :: "bar list \<Rightarrow> int \<Rightarrow> fault + scoring" where
  "score_window df minutes =
     (let recent_data = tail minutes df;
          close_prices = map Close recent_data;
          volume = map Volume recent_data
      in fbind (calculate_ema close_prices 7) (\<lambda>ema_7.
         fbind (calculate_ema close_prices 21) (\<lambda>ema_21.
         let rsi = calculate_rsi close_prices 14
         in fbind (calculate_macd close_prices) (\<lambda>(macd, macd_signal).
         let (upper_band, lower_band) = calculate_bollinger_bands close_prices 20
         in fbind (iloc close_prices 0) (\<lambda>start_price.
         fbind (iloc close_prices (- 1)) (\<lambda>end_price.
         let change = fmul (fdiv (Fin (end_price - start_price)) (Fin start_price)) (Fin 100);
             avg_volume = mean volume
         in fbind (iloc volume (- 1)) (\<lambda>current_volume.
         let ratio = volume_ratio_of current_volume avg_volume;
             strength = volume_strength_of ratio
         in fbind (iloc ema_7 (- 1)) (\<lambda>e7.
         fbind (iloc ema_21 (- 1)) (\<lambda>e21.
         let diff_percent = fmul (fdiv (Fin (e7 - e21)) (Fin e21)) (Fin 100);
             sig_ema = ema_rule diff_percent
         in fbind (iloc macd (- 1)) (\<lambda>m1.
         fbind (iloc macd_signal (- 1)) (\<lambda>s1.
         fbind (iloc macd (- 2)) (\<lambda>m2.
         let sig_macd = macd_rule (m1 - s1) (m1 - m2)
         in fbind (iloc rsi (- 1)) (\<lambda>r.
         let sig_rsi = rsi_rule r
         in fbind (iloc close_prices (- 1)) (\<lambda>current_price.
         fbind (iloc lower_band (- 1)) (\<lambda>lo.
         fbind (iloc upper_band (- 1)) (\<lambda>up.
         let (sig_bb, position) = bb_rule current_price lo up;
             signals = sig_ema @ sig_macd @ sig_rsi @ sig_bb
         in Inr \<lparr>price_change = change, volume_ratio = ratio, volume_strength = strength,
                 ema_diff_percent = diff_percent, macd_value = m1, macd_diff = m1 - s1,
                 macd_trend = m1 - m2, last_rsi = r, upper_last = up, lower_last = lo,
                 ema_signals = sig_ema, macd_signals = sig_macd, rsi_signals = sig_rsi,
                 bb_signals = sig_bb, bb_position = position, trend_signals = signals,
                 trend_strength = strength_of signals strength\<rparr>))))))))))))))))"

definition default_indicators :: "int \<Rightarrow> dict" where
  "default_indicators minutes =
     [''confidence'' \<mapsto> Num (Fin 50), ''expiration'' \<mapsto> IntV minutes]"

definition indicators_of :: "scoring \<Rightarrow> int \<Rightarrow> dict" where
  "indicators_of s minutes =
     [''confidence'' \<mapsto> Num (py_round (Fin (confidence_of (trend_strength s))) 1),
      ''expiration'' \<mapsto> IntV minutes,
      ''rsi'' \<mapsto> Num (py_round (last_rsi s) 2),
      ''macd'' \<mapsto> Num (py_round (Fin (macd_value s)) 4),
      ''bb_position'' \<mapsto> Str (bb_position s)]"

definition analyze_timeframe ::
  "bar list option \<Rightarrow> int \<Rightarrow> signal \<times> fl \<times> dict \<times> string option" where
  "analyze_timeframe df minutes =
     (case df of
        None \<Rightarrow> (NEUTRAL, Fin 0, default_indicators minutes, None)
      | Some rows \<Rightarrow>
          if int (length rows) < minutes
          then (NEUTRAL, Fin 0, default_indicators minutes, None)
          else (case score_window rows minutes of
                  Inl e \<Rightarrow> (NEUTRAL, Fin 0, default_indicators minutes, Some (str_of_fault e))
                | Inr s \<Rightarrow> (signal_of (trend_strength s), price_change s,
                            indicators_of s minutes, None)))"

section \<open>Multi-timeframe orchestrator\<close>

text \<open>
  The message table comes from the configuration module and the frame from the data
  retrieval; both are parameters here, and so is the clock.
\<close>

record error_messages =
  NO_DATA :: string
  TIMEOUT_ERROR :: string
  GENERAL_ERROR :: string

record timeframe_entry =
  signal :: signal
  change :: fl
  indicators :: dict

record market_analysis =
  current_price :: real
  timeframes :: "int \<rightharpoonup> timeframe_entry"
  timestamp :: nat

definition TIMEFRAMES :: "int list" where
  "TIMEFRAMES = [1, 5, 15, 30]"

text \<open>One round of the loop over the timeframes: analyse, then store the entry.\<close>

definition record_timeframe ::
  "bar list \<Rightarrow> (int \<rightharpoonup> timeframe_entry) \<Rightarrow> int \<Rightarrow> (int \<rightharpoonup> timeframe_entry)" where
  "record_timeframe df timeframe_analysis minutes =
     (case analyze_timeframe (Some df) minutes of
        (sg, ch, ind, err) \<Rightarrow>
          timeframe_analysis(minutes \<mapsto> \<lparr>signal = sg, change = ch, indicators = ind\<rparr>))"

definition analyze_market ::
  "error_messages \<Rightarrow> nat \<Rightarrow> bar list option \<times> string option \<Rightarrow> string + market_analysis" where
  "analyze_market msgs now fetched =
     (case fetched of
        (df, error_message) \<Rightarrow>
          (case error_message of
             Some (c # cs) \<Rightarrow> Inl (c # cs)
           | _ \<Rightarrow>
             (case df of
                None \<Rightarrow> Inl (NO_DATA msgs)
              | Some [] \<Rightarrow> Inl (NO_DATA msgs)
              | Some rows \<Rightarrow>
                  (case fbind (iloc (map Close rows) (- 1)) (\<lambda>price.
                          Inr \<lparr>current_price = price,
                               timeframes = foldl (record_timeframe rows) Map.empty TIMEFRAMES,
                               timestamp = now\<rparr>) of
                     Inl e \<Rightarrow> Inl (GENERAL_ERROR msgs)
                   | Inr result \<Rightarrow> Inr result))))"

section \<open>Sample bars\<close>

text \<open>A bar whose four prices coincide, for writing concrete windows.\<close>

definition flat_bar :: "real \<Rightarrow> real \<Rightarrow> bar" where
  "flat_bar price vol = \<lparr>Open = price, High = price, Low = price, Close = price, Volume = vol\<rparr>"

text \<open>
  Thirty bars whose close price starts at \<open>p\<close> and rises by 0.1 percent per bar; the volume
  is \<open>v\<close> on every bar but the last, where it is \<open>2 * v\<close>.
\<close>

definition rising_window :: "real \<Rightarrow> real \<Rightarrow> bar list" where
  "rising_window p v =
     map (\<lambda>i. flat_bar (p * (1001 / 1000) ^ i) (if i = 29 then 2 * v else v)) [0..<30]"

text \<open>
  The moving average of a series given by its index function, position by position; an
  auxiliary form of \<open>ewm_values\<close> for reasoning about series with a closed form.
\<close>

fun ema_at :: "real \<Rightarrow> (nat \<Rightarrow> real) \<Rightarrow> nat \<Rightarrow> real" where
  "ema_at alpha f 0 = f 0"
| "ema_at alpha f (Suc i) = (1 - alpha) * ema_at alpha f i + alpha * f (Suc i)"

declare ema_at.simps [simp del]

section \<open>Reading positions of the series\<close>

lemma iloc_first: "xs \<noteq> [] \<Longrightarrow> iloc xs 0 = Inr (hd xs)"
  by (cases xs) (simp_all add: iloc_def)

lemma iloc_last: "xs \<noteq> [] \<Longrightarrow> iloc xs (- 1) = Inr (last xs)"
proof -
  assume "xs \<noteq> []"
  then obtain n where n: "length xs = Suc n"
    by (cases xs) auto
  then have "nat (int (length xs) + (- 1)) = length xs - 1"
    by simp
  then show ?thesis
    using \<open>xs \<noteq> []\<close> n by (simp add: iloc_def last_conv_nth)
qed

lemma iloc_last_nil: "iloc [] i = Inl IndexError"
  by (simp add: iloc_def)

lemma iloc_before_last: "2 \<le> length xs \<Longrightarrow> iloc xs (- 2) = Inr (xs ! (length xs - 2))"
proof -
  assume l: "2 \<le> length xs"
  then have "nat (int (length xs) + (- 2)) = length xs - 2"
    by simp
  then show ?thesis
    using l by (simp add: iloc_def)
qed

lemma iloc_before_last_short: "length xs < 2 \<Longrightarrow> iloc xs (- 2) = Inl IndexError"
  by (simp add: iloc_def)

lemma length_ewm_loop: "length (ewm_loop a w xs) = length xs"
  by (induction xs arbitrary: w) (simp_all add: Let_def)

lemma length_ewm_values: "length (ewm_values a xs) = length xs"
  by (cases xs) (simp_all add: ewm_values_def length_ewm_loop)

lemma length_rolling: "length (rolling w f xs) = length xs"
  by (simp add: rolling_def)

lemma length_diff: "length (diff xs) = length xs"
  by (cases xs) (simp_all add: diff_def)

lemma length_rs_series: "length (rs_series xs p) = length xs"
  by (simp add: rs_series_def Let_def rolling_mean_def length_rolling where_else_0_def length_diff)

lemma length_calculate_rsi: "length (calculate_rsi xs p) = length xs"
  by (simp add: calculate_rsi_def length_rs_series)

lemma calculate_macd_eq:
  "calculate_macd xs =
     Inr (map2 (-) (ewm_values (2 / 13) xs) (ewm_values (2 / 27) xs),
          ewm_values (2 / 10) (map2 (-) (ewm_values (2 / 13) xs) (ewm_values (2 / 27) xs)))"
  by (simp add: calculate_macd_def ewm_mean_def fbind_def Let_def)

lemma length_bands:
  "length (fst (calculate_bollinger_bands xs p)) = length xs"
  "length (snd (calculate_bollinger_bands xs p)) = length xs"
  by (simp_all add: calculate_bollinger_bands_def Let_def rolling_mean_def rolling_std_def length_rolling)

lemma score_window_short:
  assumes "length (tail minutes df) < 2"
  shows "score_window df minutes = Inl IndexError"
proof (cases "tail minutes df = []")
  case True
  then show ?thesis
    by (simp add: score_window_def Let_def fbind_def calculate_ema_def ewm_mean_def calculate_macd_eq iloc_last_nil split: prod.splits)
next
  case False
  then have ne: "map Close (tail minutes df) \<noteq> []" "map Volume (tail minutes df) \<noteq> []" by simp_all
  have l: "length (map2 (-) (ewm_values (2 / 13) (map Close (tail minutes df))) (ewm_values (2 / 27) (map Close (tail minutes df)))) < 2"
    using assms by (simp add: length_ewm_values)
  have ne2: "ewm_values a (map Close (tail minutes df)) \<noteq> []" for a
    using False length_ewm_values[of a "map Close (tail minutes df)"] by (metis length_0_conv length_map)
  have ne3: "map2 (-) (ewm_values (2 / 13) (map Close (tail minutes df))) (ewm_values (2 / 27) (map Close (tail minutes df))) \<noteq> []"
    using False by (metis length_0_conv length_map length_zip length_ewm_values min.idem)
  have ne4: "ewm_values a (map2 (-) (ewm_values (2 / 13) (map Close (tail minutes df))) (ewm_values (2 / 27) (map Close (tail minutes df)))) \<noteq> []" for a
    using ne3 by (metis length_0_conv length_ewm_values)
  show ?thesis
    by (simp add: score_window_def Let_def fbind_def calculate_ema_def ewm_mean_def calculate_macd_eq
        iloc_first[OF ne(1)] iloc_last[OF ne(1)] iloc_last[OF ne(2)] iloc_last[OF ne2] iloc_last[OF ne3] iloc_last[OF ne4]
        iloc_before_last_short[OF l] split: prod.splits)
qed


lemma score_window_long:
  fixes df :: "bar list" and minutes :: int
  defines "c \<equiv> map Close (tail minutes df)"
    and "v \<equiv> map Volume (tail minutes df)"
  defines "e7 \<equiv> last (ewm_values (2 / 8) c)"
    and "e21 \<equiv> last (ewm_values (2 / 22) c)"
    and "macd \<equiv> map2 (-) (ewm_values (2 / 13) c) (ewm_values (2 / 27) c)"
  defines "m1 \<equiv> last macd"
    and "m2 \<equiv> macd ! (length macd - 2)"
    and "s1 \<equiv> last (ewm_values (2 / 10) macd)"
    and "r \<equiv> last (calculate_rsi c 14)"
    and "up \<equiv> last (fst (calculate_bollinger_bands c 20))"
    and "lo \<equiv> last (snd (calculate_bollinger_bands c 20))"
    and "ratio \<equiv> volume_ratio_of (last v) (mean v)"
  defines "dp \<equiv> fmul (fdiv (Fin (e7 - e21)) (Fin e21)) (Fin 100)"
  defines "sigs \<equiv> ema_rule dp @ macd_rule (m1 - s1) (m1 - m2) @ rsi_rule r @ fst (bb_rule (last c) lo up)"
  assumes long: "2 \<le> length (tail minutes df)"
  shows "score_window df minutes =
     Inr \<lparr>price_change = fmul (fdiv (Fin (last c - hd c)) (Fin (hd c))) (Fin 100),
          volume_ratio = ratio, volume_strength = volume_strength_of ratio,
          ema_diff_percent = dp, macd_value = m1, macd_diff = m1 - s1,
          macd_trend = m1 - m2, last_rsi = r, upper_last = up, lower_last = lo,
          ema_signals = ema_rule dp, macd_signals = macd_rule (m1 - s1) (m1 - m2),
          rsi_signals = rsi_rule r, bb_signals = fst (bb_rule (last c) lo up),
          bb_position = snd (bb_rule (last c) lo up), trend_signals = sigs,
          trend_strength = strength_of sigs (volume_strength_of ratio)\<rparr>"
proof -
  have lc: "2 \<le> length c" and lv: "2 \<le> length v"
    using long by (simp_all add: c_def v_def)
  have nc: "c \<noteq> []" and nv: "v \<noteq> []"
    using lc lv by auto
  have ne: "ewm_values a c \<noteq> []" for a
    using lc length_ewm_values[of a c] by auto
  have lm: "2 \<le> length macd"
    using lc by (simp add: macd_def length_ewm_values)
  have nm: "macd \<noteq> []"
    using lm by auto
  have ns: "ewm_values a macd \<noteq> []" for a
    using lm length_ewm_values[of a macd] by auto
  have nr: "calculate_rsi c 14 \<noteq> []"
    using lc length_calculate_rsi[of c 14] by auto
  obtain ub lb where bands: "calculate_bollinger_bands c 20 = (ub, lb)"
    by (cases "calculate_bollinger_bands c 20")
  have nu: "ub \<noteq> []" and nl: "lb \<noteq> []"
    using lc length_bands[of c 20] bands by auto
  obtain sb pos where bb: "bb_rule (last c) (last lb) (last ub) = (sb, pos)"
    by (cases "bb_rule (last c) (last lb) (last ub)")
  have macd_eq: "calculate_macd c = Inr (macd, ewm_values (2 / 10) macd)"
    by (simp add: calculate_macd_eq macd_def)
  show ?thesis
    unfolding score_window_def Let_def
    unfolding c_def[symmetric] v_def[symmetric]
    by (simp add: Let_def fbind_def calculate_ema_def ewm_mean_def macd_eq bands bb
        iloc_first[OF nc] iloc_last[OF nc] iloc_last[OF nv] iloc_last[OF ne] iloc_last[OF nm]
        iloc_last[OF ns] iloc_before_last[OF lm] iloc_last[OF nr] iloc_last[OF nu] iloc_last[OF nl]
        e7_def e21_def m1_def m2_def s1_def r_def up_def lo_def ratio_def dp_def sigs_def
        del: fdiv.simps fmul.simps)
qed

section \<open>Shape of a scored window\<close>

lemma score_window_reaches:
  assumes "score_window df minutes = Inr s"
  shows "2 \<le> length (tail minutes df)"
proof (rule ccontr)
  assume "\<not> 2 \<le> length (tail minutes df)"
  then have "score_window df minutes = Inl IndexError"
    by (simp add: score_window_short)
  with assms show False by simp
qed

lemma score_window_shape:
  assumes "score_window df minutes = Inr s"
  shows "trend_signals s = ema_signals s @ macd_signals s @ rsi_signals s @ bb_signals s"
    and "trend_strength s = strength_of (trend_signals s) (volume_strength s)"
    and "volume_strength s = volume_strength_of (volume_ratio s)"
    and "ema_signals s = ema_rule (ema_diff_percent s)"
    and "macd_signals s = macd_rule (macd_diff s) (macd_trend s)"
    and "rsi_signals s = rsi_rule (last_rsi s)"
    and "bb_signals s = fst (bb_rule (last (map Close (tail minutes df))) (lower_last s) (upper_last s))"
    and "bb_position s = snd (bb_rule (last (map Close (tail minutes df))) (lower_last s) (upper_last s))"
  using assms score_window_long[OF score_window_reaches[OF assms]] by auto

lemma volume_strength_of_le: "volume_strength_of r \<le> 3"
  by (simp add: volume_strength_of_def)

lemma ema_rule_cases: "ema_rule d = [1] \<or> ema_rule d = [- 1] \<or> ema_rule d = []"
  by (simp add: ema_rule_def)

lemma macd_rule_cases:
  "macd_rule a b = [1, 1] \<or> macd_rule a b = [1] \<or> macd_rule a b = [- 1, - 1] \<or> macd_rule a b = [- 1]"
  by (simp add: macd_rule_def)

lemma rsi_rule_cases:
  "rsi_rule r = [2, 1] \<or> rsi_rule r = [- 2, - 1] \<or> rsi_rule r = [1] \<or> rsi_rule r = [- 1] \<or> rsi_rule r = []"
  by (simp add: rsi_rule_def)

lemma bb_rule_cases:
  "fst (bb_rule p lo up) = [2] \<or> fst (bb_rule p lo up) = [- 2] \<or> fst (bb_rule p lo up) = []"
  by (simp add: bb_rule_def)

lemma rint_of_int: "rint (of_int z) = z"
  by (simp add: rint_def Let_def)

lemma py_round_of_int: "py_round (Fin (of_int z)) (Suc 0) = Fin (of_int z)"
proof -
  have "(of_int z :: real) * 10 = of_int (z * 10)" by simp
  then have "rint (of_int z * 10) = z * 10"
    using rint_of_int[of "z * 10"] by simp
  then show ?thesis by (simp add: py_round_def)
qed

lemma strength_times_5:
  "strength_of sigs vs * 5 = of_int (sum_list sigs * (5 + int vs))"
  by (simp add: strength_of_def algebra_simps)

lemma confidence_of_integral:
  "confidence_of (strength_of sigs vs) =
     of_int (min 95 (max 50 (50 + \<bar>sum_list sigs * (5 + int vs)\<bar>)))"
proof -
  define k where "k = \<bar>sum_list sigs * (5 + int vs)\<bar>"
  have "\<bar>strength_of sigs vs\<bar> * 5 = \<bar>strength_of sigs vs * 5\<bar>"
    by (simp add: abs_mult)
  also have "\<dots> = of_int k"
    unfolding strength_times_5 k_def by simp
  finally have "\<bar>strength_of sigs vs\<bar> * 5 = of_int k" .
  then have "confidence_of (strength_of sigs vs) = min 95 (max 50 (50 + of_int k))"
    by (simp add: confidence_of_def)
  also have "\<dots> = of_int (min 95 (max 50 (50 + k)))"
    by (simp only: of_int_min of_int_max of_int_add of_int_numeral)
  finally show ?thesis
    unfolding k_def .
qed

lemma reported_confidence:
  assumes "score_window df minutes = Inr s"
  shows "indicators_of s minutes ''confidence'' = Some (Num (Fin (confidence_of (trend_strength s))))"
proof -
  have "trend_strength s = strength_of (trend_signals s) (volume_strength s)"
    using score_window_shape(2)[OF assms] .
  then show ?thesis
    by (simp add: indicators_of_def confidence_of_integral py_round_of_int)
qed

lemma confidence_of_range: "50 \<le> confidence_of t \<and> confidence_of t \<le> 95"
  by (simp add: confidence_of_def)

lemma confidence_of_mono: "\<bar>t1\<bar> \<le> \<bar>t2\<bar> \<Longrightarrow> confidence_of t1 \<le> confidence_of t2"
  by (simp add: confidence_of_def min_def max_def)

section \<open>Windows with a constant close price\<close>

lemma last_rolling:
  assumes "xs \<noteq> []"
  shows "last (rolling w f xs) =
           (if length xs < w then NaN else f (take w (drop (length xs - w) xs)))"
proof -
  obtain n where n: "length xs = Suc n"
    using assms by (cases xs) auto
  show ?thesis
    by (auto simp add: rolling_def n)
qed

lemma last_map2:
  assumes "length xs = length ys" and "xs \<noteq> []"
  shows "last (map2 f xs ys) = f (last xs) (last ys)"
  using assms
proof (induction xs ys rule: list_induct2)
  case Nil
  then show ?case by simp
next
  case (Cons x xs y ys)
  then show ?case by (cases xs; cases ys) auto
qed

lemma ewm_loop_replicate: "ewm_loop a c (replicate n c) = replicate n c"
  by (induction n) (simp_all add: Let_def algebra_simps)

lemma ewm_values_replicate: "ewm_values a (replicate n c) = replicate n c"
  by (cases n) (simp_all add: ewm_values_def ewm_loop_replicate)

lemma diff_replicate: "diff (replicate (Suc n) c) = None # replicate n (Some 0)"
proof -
  have "map2 (\<lambda>a b. Some (b - a)) (replicate (Suc n) c) (replicate n c) = replicate n (Some 0)"
    by (simp only: zip_replicate map_replicate) simp
  then show ?thesis by (simp add: diff_def)
qed

lemma where_else_0_flat: "where_else_0 P (diff (replicate n c)) = replicate n 0"
proof (cases n)
  case 0
  then show ?thesis by (simp add: where_else_0_def diff_def)
next
  case (Suc k)
  show ?thesis
    unfolding Suc diff_replicate by (simp add: where_else_0_def)
qed

lemma mean_replicate: "0 < n \<Longrightarrow> mean (replicate n c) = c"
  by (simp add: mean_def sum_list_replicate)

lemma sample_var_replicate: "sample_var (replicate n c) = 0"
proof (cases n)
  case 0
  then show ?thesis by (simp add: sample_var_def)
next
  case (Suc k)
  then have "0 < n" by simp
  then have "mean (replicate n c) = c" by (rule mean_replicate)
  then show ?thesis by (simp add: sample_var_def sum_list_replicate)
qed

lemma window_mean_negative_zeros: "window_mean (replicate k NZero) = NZero"
  by (simp add: window_mean_def list_all_iff)

lemma last_rsi_flat:
  assumes "0 < n"
  shows "last (calculate_rsi (replicate n c) p) = NaN"
proof -
  let ?g = "rolling_mean p (replicate n 0)"
  let ?l = "rolling p window_mean (replicate n NZero)"
  have rs: "rs_series (replicate n c) p = map2 fdiv ?g ?l"
    by (simp add: rs_series_def Let_def where_else_0_flat)
  have ne: "length ?g = length ?l" "?g \<noteq> []"
    using assms by (simp_all add: rolling_mean_def rolling_def)
  have lg: "last ?g = (if n < p then NaN else Fin (mean (replicate (min p n) 0)))"
    using assms by (simp add: rolling_mean_def last_rolling min_def)
  have ll: "last ?l = (if n < p then NaN else NZero)"
    using assms by (simp add: last_rolling window_mean_negative_zeros)
  have "last (map2 fdiv ?g ?l) = fdiv (last ?g) (last ?l)"
    using ne by (rule last_map2)
  also have "\<dots> = NaN"
    by (simp add: lg ll mean_def sum_list_replicate)
  finally have "last (rs_series (replicate n c) p) = NaN"
    by (simp add: rs)
  moreover have "rs_series (replicate n c) p \<noteq> []"
    using assms length_rs_series[of "replicate n c" p] by auto
  ultimately show ?thesis
    by (simp add: calculate_rsi_def last_map fsub_def)
qed

lemma last_bands_flat:
  assumes "0 < n"
  shows "last (fst (calculate_bollinger_bands (replicate n c) 20)) = (if n < 20 then NaN else Fin c)"
    and "last (snd (calculate_bollinger_bands (replicate n c) 20)) = (if n < 20 then NaN else Fin c)"
proof -
  let ?xs = "replicate n c"
  let ?sma = "rolling_mean 20 ?xs" and ?std = "rolling_std 20 ?xs"
  have ne: "?xs \<noteq> []" using assms by simp
  have l: "length ?sma = length (map (\<lambda>s. fmul s (Fin 2)) ?std)" "?sma \<noteq> []"
    using assms by (auto simp: rolling_mean_def rolling_std_def length_rolling rolling_def)
  have sma: "last ?sma = (if n < 20 then NaN else Fin c)"
    unfolding rolling_mean_def last_rolling[OF ne] by (simp add: mean_replicate min_def)
  have std: "last ?std = (if n < 20 then NaN else Fin 0)"
    unfolding rolling_std_def last_rolling[OF ne] by (simp add: sample_var_replicate min_def)
  have ne2: "?std \<noteq> []"
    using assms by (simp add: rolling_std_def rolling_def)
  have two: "last (map (\<lambda>s. fmul s (Fin 2)) ?std) = (if n < 20 then NaN else Fin 0)"
    using ne2 by (simp add: last_map std)
  show "last (fst (calculate_bollinger_bands ?xs 20)) = (if n < 20 then NaN else Fin c)"
    unfolding calculate_bollinger_bands_def Let_def fst_conv last_map2[OF l] sma two by simp
  show "last (snd (calculate_bollinger_bands ?xs 20)) = (if n < 20 then NaN else Fin c)"
    unfolding calculate_bollinger_bands_def Let_def snd_conv last_map2[OF l] sma two
    by (simp add: fsub_def)
qed

lemma ema_rule_zero_ratio: "ema_rule (fmul (fdiv (Fin 0) (Fin c)) (Fin 100)) = []"
  by (simp add: ema_rule_def fgt_def)

lemma score_window_flat_close:
  assumes flat: "map Close (tail minutes df) = replicate n c" and n: "2 \<le> n"
  defines "ratio \<equiv> volume_ratio_of (last (map Volume (tail minutes df))) (mean (map Volume (tail minutes df)))"
  shows "score_window df minutes =
     Inr \<lparr>price_change = fmul (fdiv (Fin 0) (Fin c)) (Fin 100),
          volume_ratio = ratio, volume_strength = volume_strength_of ratio,
          ema_diff_percent = fmul (fdiv (Fin 0) (Fin c)) (Fin 100),
          macd_value = 0, macd_diff = 0, macd_trend = 0, last_rsi = NaN,
          upper_last = (if n < 20 then NaN else Fin c),
          lower_last = (if n < 20 then NaN else Fin c),
          ema_signals = [], macd_signals = [- 1], rsi_signals = [], bb_signals = [],
          bb_position = ''normal'', trend_signals = [- 1],
          trend_strength = strength_of [- 1] (volume_strength_of ratio)\<rparr>"
proof -
  have len: "length (tail minutes df) = n"
    using flat by (metis length_map length_replicate)
  have long: "2 \<le> length (tail minutes df)"
    using len n by simp
  have pos: "0 < n" using n by simp
  have bb: "bb_rule c (if n < 20 then NaN else Fin c) (if n < 20 then NaN else Fin c) = ([], ''normal'')"
    by (simp add: bb_rule_def fgt_def)
  show ?thesis
    unfolding score_window_long[OF long] flat ratio_def[symmetric]
    using pos n
    by (simp add: ewm_values_replicate last_rsi_flat last_bands_flat ema_rule_zero_ratio bb
        macd_rule_def rsi_rule_def fgt_def del: fdiv.simps fmul.simps)
qed

lemma replicate_two: "replicate 2 x = [x, x]"
  by (simp add: numeral_2_eq_2)

lemma analyze_timeframe_scored:
  assumes "minutes \<le> int (length rows)"
  shows "analyze_timeframe (Some rows) minutes =
           (case score_window rows minutes of
              Inl e \<Rightarrow> (NEUTRAL, Fin 0, default_indicators minutes, Some (str_of_fault e))
            | Inr s \<Rightarrow> (signal_of (trend_strength s), price_change s, indicators_of s minutes, None))"
  using assms by (simp add: analyze_timeframe_def)

section \<open>Claims about the scorer's defaults and thresholds\<close>

text \<open>
  C5. A frame that is absent, or shorter than the requested number of minutes, gets exactly
  the neutral default: signal NEUTRAL, change 0, the indicators \<open>confidence = 50\<close> and
  \<open>expiration = minutes\<close> and nothing else, and no error value.
\<close>

theorem short_window_neutral_default:
  assumes "df = None \<or> (\<exists>rows. df = Some rows \<and> int (length rows) < minutes)"
  shows "analyze_timeframe df minutes =
           (NEUTRAL, Fin 0, [''confidence'' \<mapsto> Num (Fin 50), ''expiration'' \<mapsto> IntV minutes], None)"
  using assms by (auto simp add: analyze_timeframe_def default_indicators_def)

theorem short_window_neutral_default_witness:
  "analyze_timeframe (Some [flat_bar 100 10, flat_bar 101 10, flat_bar 102 10]) 5 =
     (NEUTRAL, Fin 0, [''confidence'' \<mapsto> Num (Fin 50), ''expiration'' \<mapsto> IntV 5], None)"
  using short_window_neutral_default
          [of "Some [flat_bar 100 10, flat_bar 101 10, flat_bar 102 10]" 5]
  by simp

text \<open>
  C3. The emitted signal is BUY when the trend strength is at least 1.2, SELL when it is at
  most -1.2 and NEUTRAL in between (a window whose analysis faults is NEUTRAL as well). A
  strength of magnitude exactly 1.2 is not NEUTRAL; one of magnitude 1.1999 is.
\<close>

theorem signal_threshold:
  assumes "minutes \<le> int (length rows)"
  shows "fst (analyze_timeframe (Some rows) minutes) =
           (case score_window rows minutes of
              Inl e \<Rightarrow> NEUTRAL
            | Inr s \<Rightarrow>
                if 12 / 10 \<le> trend_strength s then BUY
                else if trend_strength s \<le> - (12 / 10) then SELL
                else NEUTRAL)
         \<and> signal_of (12 / 10) = BUY \<and> signal_of (- (12 / 10)) = SELL
         \<and> signal_of (11999 / 10000) = NEUTRAL \<and> signal_of (- (11999 / 10000)) = NEUTRAL"
  using assms
  by (auto simp add: analyze_timeframe_scored signal_of_def split: sum.splits)

theorem signal_threshold_witness:
  "(\<exists>s. score_window [flat_bar 100 10, flat_bar 100 12] 2 = Inr s \<and> trend_strength s = - (12 / 10))
   \<and> fst (analyze_timeframe (Some [flat_bar 100 10, flat_bar 100 12]) 2) = SELL"
proof -
  let ?w = "[flat_bar 100 10, flat_bar 100 12]"
  have flat: "map Close (tail 2 ?w) = replicate 2 100"
    by (simp add: tail_def flat_bar_def replicate_two)
  have sw: "\<exists>s. score_window ?w 2 = Inr s \<and> trend_strength s = - (12 / 10)"
    unfolding score_window_flat_close[OF flat order_refl]
    by (simp add: tail_def flat_bar_def mean_def volume_ratio_of_def volume_strength_of_def strength_of_def)
  then show ?thesis
    using signal_threshold[of 2 ?w] by auto
qed

text \<open>
  C4. The reported confidence of a scored window is \<open>50 + |trend_strength| * 5\<close> clamped to
  the interval from 50 to 95 (rounding to one decimal changes nothing, the unclamped value
  being a whole number); every reported confidence lies between 50 and 95; and the
  confidence does not decrease when the magnitude of the trend strength grows.
\<close>

theorem confidence_clamped:
  assumes "minutes \<le> int (length rows)" and "score_window rows minutes = Inr s"
  shows "fst (snd (snd (analyze_timeframe (Some rows) minutes))) ''confidence'' =
           Some (Num (Fin (min 95 (max 50 (50 + \<bar>trend_strength s\<bar> * 5)))))
         \<and> (\<exists>c. fst (snd (snd (analyze_timeframe df m))) ''confidence'' = Some (Num (Fin c))
                \<and> 50 \<le> c \<and> c \<le> 95)
         \<and> (\<bar>t1\<bar> \<le> \<bar>t2\<bar> \<longrightarrow> confidence_of t1 \<le> confidence_of t2)"
proof -
  have a: "fst (snd (snd (analyze_timeframe (Some rows) minutes))) ''confidence'' =
           Some (Num (Fin (min 95 (max 50 (50 + \<bar>trend_strength s\<bar> * 5)))))"
    using assms reported_confidence[OF assms(2)]
    by (simp add: analyze_timeframe_scored confidence_of_def)
  have b: "\<exists>c. fst (snd (snd (analyze_timeframe df m))) ''confidence'' = Some (Num (Fin c))
                \<and> 50 \<le> c \<and> c \<le> 95"
  proof (cases df)
    case None
    then show ?thesis by (simp add: analyze_timeframe_def default_indicators_def)
  next
    case (Some rs)
    show ?thesis
    proof (cases "int (length rs) < m")
      case True
      then show ?thesis by (simp add: Some analyze_timeframe_def default_indicators_def)
    next
      case False
      show ?thesis
      proof (cases "score_window rs m")
        case (Inl e)
        then show ?thesis using False by (simp add: Some analyze_timeframe_def default_indicators_def)
      next
        case (Inr s')
        then show ?thesis
          using False reported_confidence[OF Inr] confidence_of_range[of "trend_strength s'"]
          by (simp add: Some analyze_timeframe_def)
      qed
    qed
  qed
  show ?thesis
    using a b confidence_of_mono by blast
qed

theorem confidence_clamped_witness:
  "(\<exists>s. score_window [flat_bar 50 1, flat_bar 50 3] 2 = Inr s \<and> trend_strength s = - (14 / 10))
   \<and> fst (snd (snd (analyze_timeframe (Some [flat_bar 50 1, flat_bar 50 3]) 2))) ''confidence'' =
       Some (Num (Fin 57))"
proof -
  let ?w = "[flat_bar 50 1, flat_bar 50 3]"
  have flat: "map Close (tail 2 ?w) = replicate 2 50"
    by (simp add: tail_def flat_bar_def replicate_two)
  obtain s where sw: "score_window ?w 2 = Inr s" and ts: "trend_strength s = - (14 / 10)"
    unfolding score_window_flat_close[OF flat order_refl]
    by (simp add: tail_def flat_bar_def mean_def volume_ratio_of_def volume_strength_of_def strength_of_def)
  have "(2::int) \<le> int (length ?w)" by simp
  from confidence_clamped[OF this sw] ts sw show ?thesis by simp
qed

section \<open>Claims about volume weighting and the signal vector\<close>

text \<open>
  C6. A window with at least two rows is scored without a fault whatever its volumes are.
  The volume ratio is the last volume over the mean volume when that mean is strictly
  positive and 1 otherwise; the volume strength is 3 above 1.5, 2 above 1.2, 1 above 1.0 and
  0 otherwise; so a mean that is not strictly positive gives ratio 1 and strength 0.
\<close>

theorem volume_guard:
  assumes "2 \<le> length (tail minutes rows)"
  shows "\<exists>s. score_window rows minutes = Inr s
           \<and> volume_ratio s =
               (if 0 < mean (map Volume (tail minutes rows))
                then last (map Volume (tail minutes rows)) / mean (map Volume (tail minutes rows))
                else 1)
           \<and> volume_strength s =
               (if 15 / 10 < volume_ratio s then 3
                else if 12 / 10 < volume_ratio s then 2
                else if 1 < volume_ratio s then 1
                else 0)
           \<and> (\<not> 0 < mean (map Volume (tail minutes rows))
                \<longrightarrow> volume_ratio s = 1 \<and> volume_strength s = 0)"
  unfolding score_window_long[OF assms]
  by (simp add: volume_ratio_of_def volume_strength_of_def del: fdiv.simps fmul.simps)

theorem volume_guard_witness:
  "\<not> 0 < mean (map Volume (tail 2 [flat_bar 5 0, flat_bar 6 0]))
   \<and> (\<exists>s. score_window [flat_bar 5 0, flat_bar 6 0] 2 = Inr s
          \<and> volume_ratio s = 1 \<and> volume_strength s = 0)"
proof -
  have l: "2 \<le> length (tail 2 [flat_bar 5 0, flat_bar 6 0])"
    by (simp add: tail_def)
  have m: "\<not> 0 < mean (map Volume (tail 2 [flat_bar 5 0, flat_bar 6 0]))"
    by (simp add: tail_def flat_bar_def mean_def)
  show ?thesis
    using volume_guard[OF l] m by auto
qed

text \<open>
  C9. In a scored window every contribution is one of -2, -1, 1, 2; the EMA rule adds at
  most 1 in magnitude, the MACD rule at most 2, the RSI rule at most 3 and the Bollinger
  rule at most 2; the sum of the contributions lies between -8 and 8 and the trend strength
  after volume weighting between -12.8 and 12.8.
\<close>

lemma sum_list_rules:
  "\<bar>sum_list (ema_rule d)\<bar> \<le> 1" "\<bar>sum_list (macd_rule a b)\<bar> \<le> 2"
  "\<bar>sum_list (rsi_rule r)\<bar> \<le> 3" "\<bar>sum_list (fst (bb_rule p lo up))\<bar> \<le> 2"
  by (simp_all add: ema_rule_def macd_rule_def rsi_rule_def bb_rule_def)

lemma set_rules:
  "set (ema_rule d) \<subseteq> {- 2, - 1, 1, 2}" "set (macd_rule a b) \<subseteq> {- 2, - 1, 1, 2}"
  "set (rsi_rule r) \<subseteq> {- 2, - 1, 1, 2}" "set (fst (bb_rule p lo up)) \<subseteq> {- 2, - 1, 1, 2}"
  by (auto simp add: ema_rule_def macd_rule_def rsi_rule_def bb_rule_def)

lemma strength_of_bound:
  assumes "\<bar>sum_list sigs\<bar> \<le> 8" and "vs \<le> 3"
  shows "\<bar>strength_of sigs vs\<bar> \<le> 128 / 10"
proof -
  have a: "\<bar>real_of_int (sum_list sigs)\<bar> \<le> 8"
    using assms(1) by linarith
  have b: "\<bar>1 + real vs * (2 / 10)\<bar> \<le> 16 / 10"
    using assms(2) by simp
  have "\<bar>strength_of sigs vs\<bar> = \<bar>real_of_int (sum_list sigs)\<bar> * \<bar>1 + real vs * (2 / 10)\<bar>"
    by (simp add: strength_of_def abs_mult)
  also have "\<dots> \<le> 8 * (16 / 10)"
    using a b by (intro mult_mono) simp_all
  finally show ?thesis by simp
qed

theorem contribution_bounds:
  assumes "score_window rows minutes = Inr s"
  shows "trend_signals s = ema_signals s @ macd_signals s @ rsi_signals s @ bb_signals s
         \<and> set (trend_signals s) \<subseteq> {- 2, - 1, 1, 2}
         \<and> \<bar>sum_list (ema_signals s)\<bar> \<le> 1 \<and> \<bar>sum_list (macd_signals s)\<bar> \<le> 2
         \<and> \<bar>sum_list (rsi_signals s)\<bar> \<le> 3 \<and> \<bar>sum_list (bb_signals s)\<bar> \<le> 2
         \<and> - 8 \<le> sum_list (trend_signals s) \<and> sum_list (trend_signals s) \<le> 8
         \<and> - (128 / 10) \<le> trend_strength s \<and> trend_strength s \<le> 128 / 10"
proof -
  note sh = score_window_shape[OF assms]
  have e: "\<bar>sum_list (ema_signals s)\<bar> \<le> 1" and m: "\<bar>sum_list (macd_signals s)\<bar> \<le> 2"
    and r: "\<bar>sum_list (rsi_signals s)\<bar> \<le> 3" and b: "\<bar>sum_list (bb_signals s)\<bar> \<le> 2"
    unfolding sh(4-7) by (rule sum_list_rules)+
  have tot: "\<bar>sum_list (trend_signals s)\<bar> \<le> 8"
    unfolding sh(1) using e m r b by simp
  have st: "set (trend_signals s) \<subseteq> {- 2, - 1, 1, 2}"
    unfolding sh(1) set_append
    using set_rules(1)[of "ema_diff_percent s"] set_rules(2)[of "macd_diff s" "macd_trend s"]
      set_rules(3)[of "last_rsi s"]
      set_rules(4)[of "last (map Close (tail minutes rows))" "lower_last s" "upper_last s"]
    unfolding sh(4-7)[symmetric] by blast
  have "\<bar>trend_strength s\<bar> \<le> 128 / 10"
    unfolding sh(2) sh(3) using tot volume_strength_of_le by (rule strength_of_bound)
  then have ts: "- (128 / 10) \<le> trend_strength s \<and> trend_strength s \<le> 128 / 10"
    by linarith
  have tot': "- 8 \<le> sum_list (trend_signals s) \<and> sum_list (trend_signals s) \<le> 8"
    using tot by linarith
  show ?thesis
    using sh(1) st e m r b tot' ts by blast
qed

theorem contribution_bounds_witness:
  "\<exists>s. score_window [flat_bar 7 1, flat_bar 7 1, flat_bar 7 4] 3 = Inr s
       \<and> trend_signals s = [- 1] \<and> trend_strength s = - (16 / 10)
       \<and> set (trend_signals s) \<subseteq> {- 2, - 1, 1, 2}
       \<and> - (128 / 10) \<le> trend_strength s \<and> trend_strength s \<le> 128 / 10"
proof -
  let ?w = "[flat_bar 7 1, flat_bar 7 1, flat_bar 7 4]"
  have flat: "map Close (tail 3 ?w) = replicate 3 7"
    by (simp add: tail_def flat_bar_def numeral_3_eq_3)
  have three: "(2::nat) \<le> 3" by simp
  obtain s where sw: "score_window ?w 3 = Inr s" and ts: "trend_signals s = [- 1]"
      "trend_strength s = - (16 / 10)"
    unfolding score_window_flat_close[OF flat three]
    by (simp add: tail_def flat_bar_def mean_def volume_ratio_of_def volume_strength_of_def strength_of_def)
  from contribution_bounds[OF sw] ts sw show ?thesis by blast
qed

section \<open>Claims about the indicators\<close>

text \<open>
  C8. For a non-empty series and a period of at least 1 (the library rejects a smaller
  span), the moving average has the length of the series, starts at the first sample and
  satisfies \<open>ema[i] = alpha * series[i] + (1 - alpha) * ema[i - 1]\<close> at every later
  position, with \<open>alpha = 2 / (period + 1)\<close>.
\<close>

lemma ewm_loop_nth:
  assumes "i < length xs"
  shows "(w # ewm_loop a w xs) ! Suc i = a * xs ! i + (1 - a) * (w # ewm_loop a w xs) ! i"
  using assms
proof (induction xs arbitrary: w i)
  case Nil
  then show ?case by simp
next
  case (Cons x xs)
  show ?case
  proof (cases i)
    case 0
    then show ?thesis by (simp add: Let_def)
  next
    case (Suc j)
    then have "j < length xs" using Cons.prems by simp
    from Cons.IH[OF this, of "(1 - a) * w + a * x"] show ?thesis
      by (simp add: Suc Let_def)
  qed
qed

theorem ema_recurrence:
  assumes "data \<noteq> []" and "1 \<le> period"
  shows "\<exists>ema. calculate_ema data period = Inr ema \<and> length ema = length data
           \<and> ema ! 0 = data ! 0
           \<and> (\<forall>i. 1 \<le> i \<and> i < length data \<longrightarrow>
                  ema ! i = 2 / (real_of_int period + 1) * data ! i
                            + (1 - 2 / (real_of_int period + 1)) * ema ! (i - 1))"
proof -
  obtain x rest where d: "data = x # rest"
    using assms(1) by (cases data) auto
  let ?a = "2 / (real_of_int period + 1)"
  let ?ema = "ewm_values ?a data"
  have eq: "calculate_ema data period = Inr ?ema"
    using assms(2) by (simp add: calculate_ema_def ewm_mean_def)
  have rec: "?ema ! i = ?a * data ! i + (1 - ?a) * ?ema ! (i - 1)" if "1 \<le> i" "i < length data" for i
  proof -
    have "0 < i" using that(1) by simp
    then obtain j where j: "i = Suc j" by (auto simp add: gr0_conv_Suc)
    then have "j < length rest" using that(2) d by simp
    from ewm_loop_nth[OF this, of x ?a] show ?thesis
      by (simp add: d j ewm_values_def)
  qed
  have "?ema ! 0 = data ! 0"
    by (simp add: d ewm_values_def)
  then show ?thesis
    using eq rec length_ewm_values[of ?a data] by blast
qed

theorem ema_recurrence_witness:
  "calculate_ema [10, 20, 40] 3 = Inr [10, 15, 55 / 2]
   \<and> (\<exists>ema. calculate_ema [10, 20, 40] 3 = Inr ema \<and> ema ! 0 = 10
         \<and> ema ! 2 = 2 / (real_of_int 3 + 1) * 40 + (1 - 2 / (real_of_int 3 + 1)) * ema ! 1)"
proof -
  have v: "calculate_ema [10, 20, 40] 3 = Inr [10, 15, 55 / 2]"
    by (simp add: calculate_ema_def ewm_mean_def ewm_values_def Let_def)
  have "[10, 20, 40 :: real] \<noteq> []" and "(1::int) \<le> 3" by simp_all
  from ema_recurrence[OF this] v show ?thesis by simp
qed

section \<open>Claims about faults\<close>

text \<open>
  C7. When the analysis of a window faults, the scorer returns the neutral default with the
  fault's message as error detail instead of raising. The orchestrator, given a non-empty
  frame, returns an analysis and never an error: its mapping has an entry for each of the
  windows 1, 5, 15 and 30, holding what the scorer returned for that window, a faulted
  window included.
\<close>

lemma record_timeframe_entry:
  "record_timeframe df acc minutes =
     acc(minutes \<mapsto> \<lparr>signal = fst (analyze_timeframe (Some df) minutes),
                         change = fst (snd (analyze_timeframe (Some df) minutes)),
                         indicators = fst (snd (snd (analyze_timeframe (Some df) minutes)))\<rparr>)"
  by (simp add: record_timeframe_def split: prod.splits)

lemma analyze_market_fetched:
  assumes "rows \<noteq> []"
  shows "analyze_market msgs now (Some rows, None) =
           Inr \<lparr>current_price = last (map Close rows),
                timeframes = foldl (record_timeframe rows) Map.empty TIMEFRAMES,
                timestamp = now\<rparr>"
proof -
  obtain r rs where rows: "rows = r # rs"
    using assms by (cases rows) auto
  have "map Close rows \<noteq> []" using assms by simp
  from iloc_last[OF this] show ?thesis
    unfolding analyze_market_def rows by (simp add: fbind_def)
qed

theorem window_fault_degrades_to_neutral:
  assumes "rows \<noteq> []"
  shows "(\<forall>m e. m \<le> int (length rows) \<and> score_window rows m = Inl e \<longrightarrow>
            analyze_timeframe (Some rows) m =
              (NEUTRAL, Fin 0, [''confidence'' \<mapsto> Num (Fin 50), ''expiration'' \<mapsto> IntV m],
               Some (str_of_fault e)))
         \<and> (\<exists>result. analyze_market msgs now (Some rows, None) = Inr result
               \<and> dom (timeframes result) = {1, 5, 15, 30}
               \<and> (\<forall>m \<in> {1, 5, 15, 30}.
                     timeframes result m =
                       Some \<lparr>signal = fst (analyze_timeframe (Some rows) m),
                             change = fst (snd (analyze_timeframe (Some rows) m)),
                             indicators = fst (snd (snd (analyze_timeframe (Some rows) m)))\<rparr>))"
proof -
  have a: "\<forall>m e. m \<le> int (length rows) \<and> score_window rows m = Inl e \<longrightarrow>
            analyze_timeframe (Some rows) m =
              (NEUTRAL, Fin 0, [''confidence'' \<mapsto> Num (Fin 50), ''expiration'' \<mapsto> IntV m],
               Some (str_of_fault e))"
    by (simp add: analyze_timeframe_scored default_indicators_def)
  let ?tf = "foldl (record_timeframe rows) Map.empty TIMEFRAMES"
  have d: "dom ?tf = {1, 5, 15, 30}"
    by (auto simp add: TIMEFRAMES_def record_timeframe_entry)
  have e: "\<forall>m \<in> {1, 5, 15, 30}.
             ?tf m = Some \<lparr>signal = fst (analyze_timeframe (Some rows) m),
                             change = fst (snd (analyze_timeframe (Some rows) m)),
                             indicators = fst (snd (snd (analyze_timeframe (Some rows) m)))\<rparr>"
    by (simp add: TIMEFRAMES_def record_timeframe_entry)
  show ?thesis
    using a d e analyze_market_fetched[OF assms, of msgs now]
    by simp
qed

theorem window_fault_degrades_to_neutral_witness:
  "score_window (replicate 5 (flat_bar 100 10)) 1 = Inl IndexError
   \<and> analyze_timeframe (Some (replicate 5 (flat_bar 100 10))) 1 =
       (NEUTRAL, Fin 0, [''confidence'' \<mapsto> Num (Fin 50), ''expiration'' \<mapsto> IntV 1],
        Some ''single positional indexer is out-of-bounds'')
   \<and> (\<exists>result. analyze_market \<lparr>NO_DATA = ''no data'', TIMEOUT_ERROR = ''timeout'',
                                  GENERAL_ERROR = ''general error''\<rparr> 0
                   (Some (replicate 5 (flat_bar 100 10)), None) = Inr result
          \<and> dom (timeframes result) = {1, 5, 15, 30}
          \<and> timeframes result 1 =
              Some \<lparr>signal = NEUTRAL, change = Fin 0,
                    indicators = [''confidence'' \<mapsto> Num (Fin 50), ''expiration'' \<mapsto> IntV 1]\<rparr>)"
proof -
  let ?rows = "replicate 5 (flat_bar 100 10)"
  have ne: "?rows \<noteq> []" by simp
  have "length (tail 1 ?rows) < 2"
    by (simp add: tail_def)
  then have sw: "score_window ?rows 1 = Inl IndexError"
    by (rule score_window_short)
  have le: "(1::int) \<le> int (length ?rows)" by simp
  note t = window_fault_degrades_to_neutral[OF ne,
      of "\<lparr>NO_DATA = ''no data'', TIMEOUT_ERROR = ''timeout'', GENERAL_ERROR = ''general error''\<rparr>" 0]
  from t have at: "analyze_timeframe (Some ?rows) 1 =
       (NEUTRAL, Fin 0, [''confidence'' \<mapsto> Num (Fin 50), ''expiration'' \<mapsto> IntV 1],
        Some (str_of_fault IndexError))"
    using le sw by blast
  from t at sw show ?thesis
    by auto
qed

lemma diff_nth:
  assumes "i < length xs"
  shows "diff xs ! i = (if i = 0 then None else Some (xs ! i - xs ! (i - 1)))"
proof -
  obtain x rest where xs: "xs = x # rest"
    using assms by (cases xs) auto
  show ?thesis
  proof (cases i)
    case 0
    then show ?thesis by (simp add: diff_def xs)
  next
    case (Suc j)
    then have "j < length rest" using assms xs by simp
    then show ?thesis
      by (simp add: diff_def xs Suc)
  qed
qed

lemma gain_nth:
  assumes "i < length xs"
  shows "where_else_0 (\<lambda>d. 0 < d) (diff xs) ! i =
           (if i = 0 then 0 else max 0 (xs ! i - xs ! (i - 1)))"
  using assms by (simp add: where_else_0_def length_diff diff_nth)

lemma loss_nth:
  assumes "i < length xs"
  shows "map (\<lambda>d. fneg (Fin d)) (where_else_0 (\<lambda>d. d < 0) (diff xs)) ! i =
           fneg (Fin (if i = 0 then 0 else min 0 (xs ! i - xs ! (i - 1))))"
  using assms by (simp add: where_else_0_def length_diff diff_nth min_def)

lemma window_member:
  assumes "x \<in> set (take p (drop k ys))"
  shows "\<exists>i. k \<le> i \<and> i < length ys \<and> x = ys ! i"
proof -
  from assms have "x \<in> set (drop k ys)"
    by (rule in_set_takeD)
  then obtain j where "j < length (drop k ys)" "x = drop k ys ! j"
    by (auto simp add: in_set_conv_nth)
  then have "k \<le> k + j \<and> k + j < length ys \<and> x = ys ! (k + j)"
    by simp
  then show ?thesis by blast
qed

lemma member_window:
  assumes "k \<le> i" and "i < length ys" and "i < k + p"
  shows "ys ! i \<in> set (take p (drop k ys))"
proof -
  have "i - k < length ys - k" and "i - k < p"
    using assms by arith+
  then have "i - k < length (take p (drop k ys))"
    by simp
  moreover have "take p (drop k ys) ! (i - k) = ys ! i"
    using assms by simp
  ultimately show ?thesis
    by (metis nth_mem)
qed

lemma sum_list_pos_member:
  fixes ys :: "real list"
  assumes "\<forall>y \<in> set ys. 0 \<le> y" and "x \<in> set ys" and "0 < x"
  shows "0 < sum_list ys"
proof -
  have "0 \<le> sum_list ys"
    using assms(1) by (simp add: sum_list_nonneg)
  moreover have "sum_list ys \<noteq> 0"
    using assms sum_list_nonneg_eq_0_iff[of ys] by auto
  ultimately show ?thesis by simp
qed

lemma rs_without_losses:
  fixes data :: "real list" and p :: nat
  defines "n \<equiv> length data"
  assumes p: "1 \<le> p" "p \<le> n"
    and up: "\<forall>i. n - p \<le> i \<and> i < n \<and> 0 < i \<longrightarrow> data ! (i - 1) \<le> data ! i"
    and strict: "\<exists>i. n - p \<le> i \<and> i < n \<and> 0 < i \<and> data ! (i - 1) < data ! i"
  shows "last (rs_series data p) = NInf"
proof -
  let ?G = "where_else_0 (\<lambda>d. 0 < d) (diff data)"
  let ?L = "map (\<lambda>d. fneg (Fin d)) (where_else_0 (\<lambda>d. d < 0) (diff data))"
  let ?WG = "take p (drop (n - p) ?G)" and ?WL = "take p (drop (n - p) ?L)"
  have lenG: "length ?G = n" and lenL: "length ?L = n"
    by (simp_all add: where_else_0_def length_diff n_def)
  have ne: "?G \<noteq> []" "?L \<noteq> []"
    using p lenG lenL by auto
  have lW: "length ?WG = p" "length ?WL = p"
    using p lenG lenL by simp_all
  have L0: "y = NZero" if "y \<in> set ?WL" for y
  proof -
    from window_member[OF that] obtain i where i: "n - p \<le> i" "i < n" "y = ?L ! i"
      using lenL by auto
    show ?thesis
      using i up loss_nth[of i data] by (auto simp add: n_def min_def)
  qed
  then have meanL: "window_mean ?WL = NZero"
    by (simp add: window_mean_def list_all_iff)
  have G0: "0 \<le> y" if "y \<in> set ?WG" for y
  proof -
    from window_member[OF that] obtain i where i: "n - p \<le> i" "i < n" "y = ?G ! i"
      using lenG by auto
    show ?thesis
      using i gain_nth[of i data] by (simp add: n_def)
  qed
  obtain i0 where i0: "n - p \<le> i0" "i0 < n" "0 < i0" "data ! (i0 - 1) < data ! i0"
    using strict by blast
  have "?G ! i0 \<in> set ?WG"
    using i0 p lenG by (intro member_window) simp_all
  moreover have "0 < ?G ! i0"
    using i0 gain_nth[of i0 data] by (simp add: n_def)
  ultimately have sumG: "0 < sum_list ?WG"
    using G0 sum_list_pos_member by blast
  have lastG: "last (rolling_mean p ?G) = Fin (mean ?WG)"
    unfolding rolling_mean_def last_rolling[OF ne(1)] lenG using p by simp
  have lastL: "last (rolling p window_mean ?L) = window_mean ?WL"
    unfolding last_rolling[OF ne(2)] lenL using p by simp
  have meanG: "0 < mean ?WG"
    unfolding mean_def lW using sumG p by simp
  have lens: "length (rolling_mean p ?G) = length (rolling p window_mean ?L)"
    "rolling_mean p ?G \<noteq> []"
    using p lenG lenL by (simp_all add: rolling_mean_def rolling_def)
  have "last (rs_series data p) =
          fdiv (last (rolling_mean p ?G)) (last (rolling p window_mean ?L))"
    unfolding rs_series_def Let_def by (rule last_map2[OF lens])
  then have "last (rs_series data p) = fdiv (Fin (mean ?WG)) NZero"
    unfolding lastG lastL meanL .
  then show ?thesis
    using meanG by simp
qed

lemma rsi_of_infinite_rs:
  assumes "last (rs_series data p) = NInf" and "data \<noteq> []"
  shows "last (calculate_rsi data p) = Fin 100"
proof -
  have "rs_series data p \<noteq> []"
    using assms(2) length_rs_series[of data p] by auto
  then show ?thesis
    by (simp add: calculate_rsi_def last_map assms(1) fsub_def)
qed

lemma score_window_last_rsi:
  assumes "score_window rows minutes = Inr s"
  shows "last_rsi s = last (calculate_rsi (map Close (tail minutes rows)) 14)"
  using assms score_window_long[OF score_window_reaches[OF assms]] by auto

lemma steady_rise:
  "14 \<le> length (map (\<lambda>i. 100 + real i) [0..<15])"
  "\<forall>i. length (map (\<lambda>i. 100 + real i) [0..<15]) - 14 \<le> i
         \<and> i < length (map (\<lambda>i. 100 + real i) [0..<15]) \<and> 0 < i \<longrightarrow>
       map (\<lambda>i. 100 + real i) [0..<15] ! (i - 1) \<le> map (\<lambda>i. 100 + real i) [0..<15] ! i"
  "\<exists>i. length (map (\<lambda>i. 100 + real i) [0..<15]) - 14 \<le> i
         \<and> i < length (map (\<lambda>i. 100 + real i) [0..<15]) \<and> 0 < i
         \<and> map (\<lambda>i. 100 + real i) [0..<15] ! (i - 1) < map (\<lambda>i. 100 + real i) [0..<15] ! i"
proof -
  let ?data = "map (\<lambda>i. 100 + real i) [0..<15]"
  show "14 \<le> length ?data" by simp
  show "\<forall>i. length ?data - 14 \<le> i \<and> i < length ?data \<and> 0 < i \<longrightarrow>
              ?data ! (i - 1) \<le> ?data ! i"
  proof (intro allI impI)
    fix i :: nat
    assume "length ?data - 14 \<le> i \<and> i < length ?data \<and> 0 < i"
    then have "i - 1 < length [0..<15::nat]" and "i < length [0..<15::nat]" and "0 < i"
      by auto
    then show "?data ! (i - 1) \<le> ?data ! i"
      by simp
  qed
  show "\<exists>i. length ?data - 14 \<le> i \<and> i < length ?data \<and> 0 < i \<and>
              ?data ! (i - 1) < ?data ! i"
    by (rule exI[of _ 1]) simp
qed

lemma steady_rise_list:
  "map (\<lambda>i. 100 + real i) [0..<15] =
     [100, 101, 102, 103, 104, 105, 106, 107, 108, 109, 110, 111, 112, 113, 114]"
  by (simp add: upt_conv_Cons)

text \<open>
  C10, as amended. Let a series have at least 14 values, let no price fall over the last
  14 positions and let at least one rise there. Then the average gain is positive and the
  average loss is the negative zero (line 29 negates the zero losses), so the division
  does not fault and gives the negative infinity; the last RSI is 100, and the RSI rule
  appends -2 and -1; a scored window with these close prices has \<open>last_rsi = 100\<close> and
  the RSI contributions -2 and -1.
\<close>

theorem rsi_without_losses:
  fixes data :: "real list"
  assumes "14 \<le> length data"
    and "\<forall>i. length data - 14 \<le> i \<and> i < length data \<and> 0 < i \<longrightarrow> data ! (i - 1) \<le> data ! i"
    and "\<exists>i. length data - 14 \<le> i \<and> i < length data \<and> 0 < i \<and> data ! (i - 1) < data ! i"
  shows "last (rs_series data 14) = NInf
         \<and> last (calculate_rsi data 14) = Fin 100
         \<and> rsi_rule (last (calculate_rsi data 14)) = [- 2, - 1]
         \<and> (\<forall>rows minutes s.
               score_window rows minutes = Inr s \<and> map Close (tail minutes rows) = data \<longrightarrow>
               last_rsi s = Fin 100 \<and> rsi_signals s = [- 2, - 1])"
proof -
  have rs: "last (rs_series data 14) = NInf"
    using assms by (intro rs_without_losses) simp_all
  have "data \<noteq> []" using assms(1) by auto
  with rs have rsi: "last (calculate_rsi data 14) = Fin 100"
    by (rule rsi_of_infinite_rs)
  have rule: "rsi_rule (Fin 100) = [- 2, - 1]"
    by (simp add: rsi_rule_def fgt_def)
  have "last_rsi s = Fin 100 \<and> rsi_signals s = [- 2, - 1]"
    if "score_window rows minutes = Inr s" "map Close (tail minutes rows) = data" for rows minutes s
    using score_window_last_rsi[OF that(1)] score_window_shape(6)[OF that(1)] that(2) rsi rule
    by simp
  then show ?thesis
    using rs rsi rule by auto
qed


theorem rsi_without_losses_witness:
  "last (rs_series (map (\<lambda>i. 100 + real i) [0..<15]) 14) = NInf
   \<and> last (calculate_rsi (map (\<lambda>i. 100 + real i) [0..<15]) 14) = Fin 100
   \<and> (\<exists>s. score_window (map (\<lambda>i. flat_bar (100 + real i) 1) [0..<15]) 15 = Inr s
          \<and> last_rsi s = Fin 100 \<and> rsi_signals s = [- 2, - 1])"
proof -
  let ?data = "map (\<lambda>i. 100 + real i) [0..<15]"
  let ?rows = "map (\<lambda>i. flat_bar (100 + real i) 1) [0..<15]"
  note t = rsi_without_losses[OF steady_rise]
  have closes: "map Close (tail 15 ?rows) = ?data"
    by (simp add: tail_def flat_bar_def)
  have "2 \<le> length (tail 15 ?rows)"
    by (simp add: tail_def)
  from score_window_long[OF this] obtain s where sw: "score_window ?rows 15 = Inr s"
    by blast
  from t sw closes show ?thesis
    by blast
qed

text \<open>
  C10 as stated fails on fifteen prices rising by 1 from 100: the quotient of the averages
  is the negative infinity, not the positive one.
\<close>

theorem rs_sign_counterexample:
  "last (rs_series [100, 101, 102, 103, 104, 105, 106, 107, 108, 109, 110, 111, 112, 113, 114] 14)
     = NInf
   \<and> last (rs_series [100, 101, 102, 103, 104, 105, 106, 107, 108, 109, 110, 111, 112, 113, 114] 14)
     \<noteq> PInf"
proof -
  have "last (rs_series (map (\<lambda>i. 100 + real i) [0..<15]) 14) = NInf"
    using steady_rise by (intro rs_without_losses) simp_all
  then show ?thesis
    unfolding steady_rise_list by simp
qed





section \<open>Claims about whole windows\<close>




section \<open>The rising window\<close>

text \<open>
  The moving average of a geometric series has a closed form, which gives the indicators of
  the rising window without unrolling the thirty steps.
\<close>

lemma ewm_loop_upt:
  "ewm_loop a (ema_at a f k) (map f [Suc k..<Suc k + m]) = map (ema_at a f) [Suc k..<Suc k + m]"
proof (induction m arbitrary: k)
  case 0
  then show ?case by simp
next
  case (Suc m)
  have "[Suc k..<Suc k + Suc m] = Suc k # [Suc (Suc k)..<Suc (Suc k) + m]"
    by (simp add: upt_conv_Cons)
  then show ?case
    using Suc.IH[of "Suc k"] by (simp add: Let_def ema_at.simps)
qed

lemma ewm_values_upt: "ewm_values a (map f [0..<n]) = map (ema_at a f) [0..<n]"
proof (cases n)
  case 0
  then show ?thesis by (simp add: ewm_values_def)
next
  case (Suc m)
  have "[0..<Suc m] = 0 # [Suc 0..<Suc 0 + m]"
    by (simp add: upt_conv_Cons)
  then show ?thesis
    using ewm_loop_upt[of a f 0 m] by (simp add: Suc ewm_values_def ema_at.simps)
qed

lemma ema_at_linear3:
  "ema_at a (\<lambda>i. c1 * f i + c2 * g i + c3 * h i) i =
     c1 * ema_at a f i + c2 * ema_at a g i + c3 * ema_at a h i"
  by (induction i) (simp_all add: ema_at.simps algebra_simps)

lemma ema_at_scale: "ema_at a (\<lambda>i. c * f i) i = c * ema_at a f i"
  by (induction i) (simp_all add: ema_at.simps algebra_simps)

lemma ema_at_geometric:
  assumes "A * (r - (1 - a)) = a * r"
  shows "ema_at a (\<lambda>i. r ^ i) i = A * r ^ i + (1 - A) * (1 - a) ^ i"
proof (induction i)
  case 0
  then show ?case by (simp add: ema_at.simps)
next
  case (Suc i)
  have "(1 - a) * (A * r ^ i) + a * (r * r ^ i) = (A * (r - (1 - a)) - a * r) * (- (r ^ i)) + A * (r * r ^ i)"
    by (simp add: algebra_simps)
  also have "\<dots> = A * (r * r ^ i)"
    by (simp add: assms)
  finally have "(1 - a) * (A * r ^ i) + a * (r * r ^ i) = A * (r * r ^ i)" .
  then show ?case
    by (simp add: ema_at.simps Suc algebra_simps)
qed

lemma ema_at_add: "ema_at a (\<lambda>i. f i + g i) n = ema_at a f n + ema_at a g n"
proof (induction n)
  case 0
  then show ?case by (simp add: ema_at.simps)
next
  case (Suc n)
  show ?case
    unfolding ema_at.simps Suc.IH by (simp add: algebra_simps)
qed

lemma ema_at_diff: "ema_at a (\<lambda>i. f i - g i) n = ema_at a f n - ema_at a g n"
proof (induction n)
  case 0
  then show ?case by (simp add: ema_at.simps)
next
  case (Suc n)
  show ?case
    unfolding ema_at.simps Suc.IH by (simp add: algebra_simps)
qed

lemma ema_at_lin4:
  "ema_at a (\<lambda>i. (A * f i + B * g i) - (C * f i + D * h i)) n =
     (A * ema_at a f n + B * ema_at a g n) - (C * ema_at a f n + D * ema_at a h n)"
  unfolding ema_at_diff ema_at_add ema_at_scale by (rule refl)

lemma ema_at_geometric_fun:
  assumes "A * (r - (1 - a)) = a * r"
  shows "ema_at a ((^) r) = (\<lambda>i. A * r ^ i + (1 - A) * (1 - a) ^ i)"
  by (rule ext) (rule ema_at_geometric[OF assms])

lemma ema_at_scale_fun: "ema_at a (\<lambda>i. c * f i) = (\<lambda>i. c * ema_at a f i)"
  by (rule ext) (rule ema_at_scale)

lemma power_bounds:
  "(10 / 11 :: real) ^ 29 \<le> 7 / 100" "(4 / 5 :: real) ^ 29 \<le> 2 / 1000"
  "(11 / 13 :: real) ^ 29 \<le> 8 / 1000" "1 / 10 \<le> (25 / 27 :: real) ^ 29"
  "(25 / 27 :: real) ^ 29 \<le> 108 / 1000"
  "(11 / 13 :: real) ^ 28 \<le> 1 / 100" "115 / 1000 \<le> (25 / 27 :: real) ^ 28"
  by (simp_all add: power_divide)

lemma power_bounds_rising:
  "(1 :: real) \<le> (1001 / 1000) ^ 29" "(1001 / 1000 :: real) ^ 28 \<le> (1001 / 1000) ^ 29"
  "(0 :: real) \<le> (3 / 4) ^ 29" "(0 :: real) \<le> (10 / 11) ^ 29" "(0 :: real) \<le> (4 / 5) ^ 29"
  "(0 :: real) \<le> (11 / 13) ^ 29" "(0 :: real) \<le> (11 / 13) ^ 28"
proof -
  show "(1 :: real) \<le> (1001 / 1000) ^ 29"
    by (rule one_le_power) simp
  show "(1001 / 1000 :: real) ^ 28 \<le> (1001 / 1000) ^ 29"
    by (rule power_increasing) simp_all
qed (rule zero_le_power, simp)+

lemma unit_ema_gap:
  "0 < ema_at (1 / 11) ((^) (1001 / 1000)) 29
   \<and> 5 / 100 < (ema_at (1 / 4) ((^) (1001 / 1000)) 29 - ema_at (1 / 11) ((^) (1001 / 1000)) 29)
                 / ema_at (1 / 11) ((^) (1001 / 1000)) 29 * 100"
proof -
  define Q c7 c21 :: real where "Q = (1001 / 1000) ^ 29" and "c7 = (3 / 4) ^ 29"
    and "c21 = (10 / 11) ^ 29"
  have "ema_at (1 / 4) ((^) (1001 / 1000)) 29 =
          1001 / 1004 * (1001 / 1000) ^ 29 + (1 - 1001 / 1004) * (1 - 1 / 4) ^ 29"
    by (rule ema_at_geometric) simp
  then have e7: "ema_at (1 / 4) ((^) (1001 / 1000)) 29 = 1001 / 1004 * Q + 3 / 1004 * c7"
    unfolding Q_def c7_def by simp
  have "ema_at (1 / 11) ((^) (1001 / 1000)) 29 =
          1001 / 1011 * (1001 / 1000) ^ 29 + (1 - 1001 / 1011) * (1 - 1 / 11) ^ 29"
    by (rule ema_at_geometric) simp
  then have e21: "ema_at (1 / 11) ((^) (1001 / 1000)) 29 = 1001 / 1011 * Q + 10 / 1011 * c21"
    unfolding Q_def c21_def by simp
  have b: "1 \<le> Q" "0 \<le> c7" "0 \<le> c21" "c21 \<le> 7 / 100"
    unfolding Q_def c7_def c21_def
    by (rule power_bounds_rising power_bounds)+
  have pos: "0 < 1001 / 1011 * Q + 10 / 1011 * c21"
    using b by linarith
  have "((1001 / 1004 * Q + 3 / 1004 * c7) - (1001 / 1011 * Q + 10 / 1011 * c21)) * 100
          - 5 / 100 * (1001 / 1011 * Q + 10 / 1011 * c21)
        = 1084083 / 1691740 * Q + 75 / 251 * c7 - 667 / 674 * c21"
    by (simp add: field_simps)
  moreover have "0 < 1084083 / 1691740 * Q + 75 / 251 * c7 - 667 / 674 * c21"
    using b by linarith
  ultimately have "5 / 100 * (1001 / 1011 * Q + 10 / 1011 * c21)
          < ((1001 / 1004 * Q + 3 / 1004 * c7) - (1001 / 1011 * Q + 10 / 1011 * c21)) * 100"
    by linarith
  then have "5 / 100 < ((1001 / 1004 * Q + 3 / 1004 * c7) - (1001 / 1011 * Q + 10 / 1011 * c21))
                    / (1001 / 1011 * Q + 10 / 1011 * c21) * 100"
    using pos by (simp add: pos_less_divide_eq)
  then show ?thesis
    unfolding e7 e21 using pos by blast
qed

lemma unit_macd:
  fixes U :: "nat \<Rightarrow> real"
  defines "U \<equiv> \<lambda>i. ema_at (2 / 13) ((^) (1001 / 1000)) i - ema_at (2 / 27) ((^) (1001 / 1000)) i"
  shows "0 < U 29 - ema_at (1 / 5) U 29 \<and> 0 < U 29 - U 28"
proof -
  define Q c12 c26 F :: real where "Q = (1001 / 1000) ^ 29" and "c12 = (11 / 13) ^ 29"
    and "c26 = (25 / 27) ^ 29" and "F = (4 / 5) ^ 29"
  define Q' c12' c26' :: real where "Q' = (1001 / 1000) ^ 28" and "c12' = (11 / 13) ^ 28"
    and "c26' = (25 / 27) ^ 28"
  have g12: "ema_at (2 / 13) ((^) (1001 / 1000)) =
              (\<lambda>i. 2002 / 2013 * (1001 / 1000) ^ i + (1 - 2002 / 2013) * (1 - 2 / 13) ^ i)"
    by (rule ema_at_geometric_fun) simp
  have g26: "ema_at (2 / 27) ((^) (1001 / 1000)) =
              (\<lambda>i. 2002 / 2027 * (1001 / 1000) ^ i + (1 - 2002 / 2027) * (1 - 2 / 27) ^ i)"
    by (rule ema_at_geometric_fun) simp
  have s_q: "ema_at (1 / 5) ((^) (1001 / 1000)) =
              (\<lambda>i. 1001 / 1005 * (1001 / 1000) ^ i + (1 - 1001 / 1005) * (1 - 1 / 5) ^ i)"
    by (rule ema_at_geometric_fun) simp
  have s_12: "ema_at (1 / 5) ((^) (1 - 2 / 13)) =
              (\<lambda>i. 11 / 3 * (1 - 2 / 13) ^ i + (1 - 11 / 3) * (1 - 1 / 5) ^ i)"
    by (rule ema_at_geometric_fun) simp
  have s_26: "ema_at (1 / 5) ((^) (1 - 2 / 27)) =
              (\<lambda>i. 25 / 17 * (1 - 2 / 27) ^ i + (1 - 25 / 17) * (1 - 1 / 5) ^ i)"
    by (rule ema_at_geometric_fun) simp
  have u29: "U 29 = 2002 / 2013 * Q + 11 / 2013 * c12 - 2002 / 2027 * Q - 25 / 2027 * c26"
    unfolding U_def g12 g26 Q_def c12_def c26_def by simp
  have u28: "U 28 = 2002 / 2013 * Q' + 11 / 2013 * c12' - 2002 / 2027 * Q' - 25 / 2027 * c26'"
    unfolding U_def g12 g26 Q'_def c12'_def c26'_def by simp
  have sig: "ema_at (1 / 5) U 29 =
      2002 / 2013 * (1001 / 1005 * Q + 4 / 1005 * F) + 11 / 2013 * (11 / 3 * c12 - 8 / 3 * F)
      - 2002 / 2027 * (1001 / 1005 * Q + 4 / 1005 * F) - 25 / 2027 * (25 / 17 * c26 - 8 / 17 * F)"
    unfolding U_def g12 g26 ema_at_lin4 s_q s_12 s_26 Q_def c12_def c26_def F_def by simp
  have b: "1 \<le> Q" "0 \<le> F" "F \<le> 2 / 1000" "0 \<le> c12" "c12 \<le> 8 / 1000" "1 / 10 \<le> c26"
    "c26 \<le> 108 / 1000" "Q' \<le> Q" "0 \<le> c12'" "c12' \<le> 1 / 100" "115 / 1000 \<le> c26'"
    unfolding Q_def c12_def c26_def F_def Q'_def c12'_def c26'_def
    by (rule power_bounds_rising power_bounds)+
  have "U 29 - ema_at (1 / 5) U 29 =
      10192 / 372795705 * Q - 10192 / 372795705 * F - 8 / 549 * c12 + 8 / 549 * F
      + 200 / 34459 * c26 - 200 / 34459 * F"
    unfolding u29 sig by (simp add: field_simps)
  moreover have "0 < 10192 / 372795705 * Q - 10192 / 372795705 * F - 8 / 549 * c12 + 8 / 549 * F
      + 200 / 34459 * c26 - 200 / 34459 * F"
    using b by linarith
  ultimately have d: "0 < U 29 - ema_at (1 / 5) U 29"
    by (simp only:)
  have "0 < (2002 / 2013 * Q + 11 / 2013 * c12 - 2002 / 2027 * Q - 25 / 2027 * c26)
           - (2002 / 2013 * Q' + 11 / 2013 * c12' - 2002 / 2027 * Q' - 25 / 2027 * c26')"
    using b by linarith
  then have t: "0 < U 29 - U 28"
    unfolding u29 u28 .
  show ?thesis
    using d t by blast
qed

lemma geometric_sum_list:
  fixes r :: real
  shows "(r - 1) * sum_list (map ((^) r) [k..<k + n]) = r ^ (k + n) - r ^ k"
  by (induction n) (simp_all add: algebra_simps)

lemma sum_squared_deviations:
  fixes ys :: "real list"
  shows "sum_list (map (\<lambda>y. (y - m)\<^sup>2) ys) =
           sum_list (map (\<lambda>y. y\<^sup>2) ys) - 2 * m * sum_list ys + real (length ys) * m\<^sup>2"
  by (induction ys) (simp_all add: power2_eq_square algebra_simps)

lemma geometric_window_moments:
  fixes r :: real
  assumes "1 < r"
  defines "S \<equiv> (r ^ 30 - r ^ 10) / (r - 1)"
    and "T \<equiv> ((r\<^sup>2) ^ 30 - (r\<^sup>2) ^ 10) / (r\<^sup>2 - 1)"
  shows "mean (map ((^) r) [10..<30]) = S / 20"
    and "sample_var (map ((^) r) [10..<30]) = (T - S\<^sup>2 / 20) / 19"
proof -
  let ?ys = "map ((^) r) [10..<30]"
  have r2: "1 < r\<^sup>2"
    using assms(1) by (simp add: one_less_power)
  have "(r - 1) * sum_list (map ((^) r) [10..<10 + 20]) = r ^ (10 + 20) - r ^ 10"
    by (rule geometric_sum_list)
  then have sum1: "sum_list ?ys = S"
    using assms(1) by (simp add: S_def field_simps)
  have "(r\<^sup>2 - 1) * sum_list (map ((^) (r\<^sup>2)) [10..<10 + 20]) = (r\<^sup>2) ^ (10 + 20) - (r\<^sup>2) ^ 10"
    by (rule geometric_sum_list)
  then have "sum_list (map ((^) (r\<^sup>2)) [10..<30]) = T"
    using r2 by (simp add: T_def field_simps)
  moreover have "map (\<lambda>y. y\<^sup>2) ?ys = map ((^) (r\<^sup>2)) [10..<30]"
    by (simp add: comp_def power_mult[symmetric] mult.commute)
  ultimately have sum2: "sum_list (map (\<lambda>y. y\<^sup>2) ?ys) = T"
    by simp
  have len: "length ?ys = 20" by simp
  show m: "mean ?ys = S / 20"
    unfolding mean_def sum1 len by simp
  have "sum_list (map (\<lambda>y. (y - S / 20)\<^sup>2) ?ys) = T - S\<^sup>2 / 20"
    unfolding sum_squared_deviations sum1 sum2 len
    by (simp add: power2_eq_square field_simps)
  then show "sample_var ?ys = (T - S\<^sup>2 / 20) / 19"
    unfolding sample_var_def m len by simp
qed

lemma unit_bollinger:
  "mean (map ((^) (1001 / 1000)) [10..<30]) \<le> (1001 / 1000) ^ 29
   \<and> (((1001 / 1000) ^ 29 - mean (map ((^) (1001 / 1000)) [10..<30])) / 2)\<^sup>2
       \<le> sample_var (map ((^) (1001 / 1000)) [10..<30])"
proof -
  have one: "(1::real) < 1001 / 1000" by simp
  show ?thesis
    unfolding geometric_window_moments[OF one] by (simp add: power_divide)
qed

lemma mean_scale: "mean (map ((*) p) ys) = p * mean ys"
  by (simp add: mean_def sum_list_const_mult)

lemma sample_var_scale: "sample_var (map ((*) p) ys) = p\<^sup>2 * sample_var ys"
proof -
  have "sum_list (map (\<lambda>y. (y - p * mean ys)\<^sup>2) (map ((*) p) ys)) =
          sum_list (map (\<lambda>y. p\<^sup>2 * (y - mean ys)\<^sup>2) ys)"
    by (simp add: comp_def power_mult_distrib[symmetric] right_diff_distrib)
  also have "\<dots> = p\<^sup>2 * sum_list (map (\<lambda>y. (y - mean ys)\<^sup>2) ys)"
    by (rule sum_list_const_mult)
  finally show ?thesis
    by (simp add: sample_var_def mean_scale)
qed

lemma rising_closes:
  "map Close (tail 30 (rising_window p v)) = map (\<lambda>i. p * (1001 / 1000) ^ i) [0..<30]"
  by (simp add: tail_def rising_window_def flat_bar_def comp_def)

lemma rising_volumes:
  "map Volume (tail 30 (rising_window p v)) = map (\<lambda>i. if i = 29 then 2 * v else v) [0..<30]"
  by (simp add: tail_def rising_window_def flat_bar_def comp_def)

lemma rising_volume_sum: "sum_list (map (\<lambda>i. if i = 29 then 2 * v else v) [0..<30]) = 31 * (v::real)"
  by (simp add: upt_conv_Cons)

lemma rising_volume_strength:
  assumes "0 < v"
  shows "volume_strength_of (volume_ratio_of (last (map Volume (tail 30 (rising_window p v))))
           (mean (map Volume (tail 30 (rising_window p v))))) = 3"
proof -
  have m: "mean (map Volume (tail 30 (rising_window p v))) = 31 * v / 30"
    unfolding rising_volumes mean_def rising_volume_sum by simp
  have l: "last (map Volume (tail 30 (rising_window p v))) = 2 * v"
    unfolding rising_volumes by (simp add: last_map)
  have "volume_ratio_of (2 * v) (31 * v / 30) = 60 / 31"
    using assms by (simp add: volume_ratio_of_def)
  then show ?thesis
    unfolding m l by (simp add: volume_strength_of_def)
qed


lemma last_bands:
  assumes "20 \<le> length xs"
  defines "w \<equiv> take 20 (drop (length xs - 20) xs)"
  shows "last (fst (calculate_bollinger_bands xs 20)) = Fin (mean w + sqrt (sample_var w) * 2)"
    and "last (snd (calculate_bollinger_bands xs 20)) = Fin (mean w - sqrt (sample_var w) * 2)"
proof -
  let ?sma = "rolling_mean 20 xs" and ?std = "rolling_std 20 xs"
  have ne: "xs \<noteq> []" using assms(1) by auto
  have lw: "length w = 20" using assms(1) by (simp add: w_def)
  have l: "length ?sma = length (map (\<lambda>s. fmul s (Fin 2)) ?std)" "?sma \<noteq> []"
    using ne by (simp_all add: rolling_mean_def rolling_std_def rolling_def)
  have sma: "last ?sma = Fin (mean w)"
    unfolding rolling_mean_def last_rolling[OF ne] w_def using assms(1) by simp
  have std: "last ?std = Fin (sqrt (sample_var w))"
    unfolding rolling_std_def last_rolling[OF ne] w_def[symmetric] using assms(1) lw by simp
  have ne2: "?std \<noteq> []"
    using ne by (simp add: rolling_std_def rolling_def)
  have two: "last (map (\<lambda>s. fmul s (Fin 2)) ?std) = Fin (sqrt (sample_var w) * 2)"
    using ne2 by (simp add: last_map std)
  show "last (fst (calculate_bollinger_bands xs 20)) = Fin (mean w + sqrt (sample_var w) * 2)"
    unfolding calculate_bollinger_bands_def Let_def fst_conv last_map2[OF l] sma two by simp
  show "last (snd (calculate_bollinger_bands xs 20)) = Fin (mean w - sqrt (sample_var w) * 2)"
    unfolding calculate_bollinger_bands_def Let_def snd_conv last_map2[OF l] sma two
    by (simp add: fsub_def)
qed

lemma rising_inside_bands:
  assumes "0 < p"
  defines "w \<equiv> map ((*) p) (map ((^) (1001 / 1000)) [10..<30])"
  shows "mean w - sqrt (sample_var w) * 2 \<le> p * (1001 / 1000) ^ 29"
    and "p * (1001 / 1000) ^ 29 \<le> mean w + sqrt (sample_var w) * 2"
proof -
  let ?u = "map ((^) (1001 / 1000 :: real)) [10..<30]"
  let ?x = "(1001 / 1000 :: real) ^ 29"
  note u1 = unit_bollinger[THEN conjunct1] and u2 = unit_bollinger[THEN conjunct2]
  have m: "mean w = p * mean ?u" and v: "sample_var w = p\<^sup>2 * sample_var ?u"
    unfolding w_def by (rule mean_scale, rule sample_var_scale)
  have sq: "sqrt (sample_var w) = p * sqrt (sample_var ?u)"
    unfolding v using assms(1) by (simp add: real_sqrt_mult)
  have half: "(?x - mean ?u) / 2 \<le> sqrt (sample_var ?u)"
    using u2 by (rule real_le_rsqrt)
  define x m s where "x = ?x" and "m = mean ?u" and "s = sqrt (sample_var ?u)"
  have mx: "m \<le> x" and xs: "(x - m) / 2 \<le> s"
    using u1 half by (simp_all only: x_def m_def s_def)
  have lo: "m - s * 2 \<le> x"
    using mx xs by (simp add: field_simps)
  have hi: "x \<le> m + s * 2"
    using mx xs by (simp add: field_simps)
  from lo hi have "p * (m - s * 2) \<le> p * x" and "p * x \<le> p * (m + s * 2)"
    using assms(1) by simp_all
  then have "p * mean ?u - p * sqrt (sample_var ?u) * 2 \<le> p * ?x"
    and "p * ?x \<le> p * mean ?u + p * sqrt (sample_var ?u) * 2"
    unfolding x_def m_def s_def by (simp_all only: algebra_simps)
  then show "mean w - sqrt (sample_var w) * 2 \<le> p * (1001 / 1000) ^ 29"
    and "p * (1001 / 1000) ^ 29 \<le> mean w + sqrt (sample_var w) * 2"
    unfolding m sq by (simp_all only:)
qed


lemma rising_rsi:
  assumes "0 < p"
  shows "last (calculate_rsi (map (\<lambda>i. p * (1001 / 1000) ^ i) [0..<30]) 14) = Fin 100"
proof -
  let ?c = "map (\<lambda>i. p * (1001 / 1000) ^ i) [0..<30]"
  have nth: "?c ! i = p * (1001 / 1000) ^ i" if "i < 30" for i
    using that by simp
  have up: "\<forall>i. length ?c - 14 \<le> i \<and> i < length ?c \<and> 0 < i \<longrightarrow> ?c ! (i - 1) \<le> ?c ! i"
  proof (intro allI impI)
    fix i :: nat
    assume "length ?c - 14 \<le> i \<and> i < length ?c \<and> 0 < i"
    then have i: "i - 1 < 30" "i < 30" "i - 1 \<le> i"
      by auto
    have "(1001 / 1000 :: real) ^ (i - 1) \<le> (1001 / 1000) ^ i"
      using i(3) by (intro power_increasing) simp_all
    then show "?c ! (i - 1) \<le> ?c ! i"
      unfolding nth[OF i(1)] nth[OF i(2)] using assms by simp
  qed
  have "(1001 / 1000 :: real) ^ 28 < (1001 / 1000) ^ 29"
    by (intro power_strict_increasing) simp_all
  then have "?c ! (29 - 1) < ?c ! 29"
    using assms by simp
  then have strict: "\<exists>i. length ?c - 14 \<le> i \<and> i < length ?c \<and> 0 < i \<and> ?c ! (i - 1) < ?c ! i"
    by (intro exI[of _ 29]) simp
  have "last (rs_series ?c 14) = NInf"
    using up strict by (intro rs_without_losses) simp_all
  then show ?thesis
    by (rule rsi_of_infinite_rs) simp
qed

lemma fdiv_positive_divisor: "0 < d \<Longrightarrow> fdiv (Fin n) (Fin d) = Fin (n / d)"
  by simp

lemma fmul_hundred: "fmul (Fin x) (Fin 100) = Fin (x * 100)"
  by auto

lemma ema_diff_percent_scale:
  assumes "0 < p" and "0 < b"
  shows "fmul (fdiv (Fin (p * a - p * b)) (Fin (p * b))) (Fin 100) = Fin ((a - b) / b * 100)"
proof -
  have "p * a - p * b = p * (a - b)"
    by (simp add: right_diff_distrib)
  then have ratio: "(p * a - p * b) / (p * b) = (a - b) / b"
    using assms by simp
  have pos: "0 < p * b"
    using assms by simp
  show ?thesis
    unfolding fdiv_positive_divisor[OF pos] fmul_hundred ratio by (rule refl)
qed

lemma rising_window_scoring:
  assumes p: "0 < p" and v: "0 < v"
  shows "\<exists>s. score_window (rising_window p v) 30 = Inr s
           \<and> volume_strength s = 3
           \<and> ema_signals s = [1] \<and> macd_signals s = [1, 1]
           \<and> last_rsi s = Fin 100 \<and> rsi_signals s = [- 2, - 1]
           \<and> bb_signals s = [] \<and> bb_position s = ''normal''
           \<and> trend_signals s = [1, 1, 1, - 2, - 1] \<and> trend_strength s = 0"
proof -
  let ?q = "1001 / 1000 :: real"
  let ?c = "map (\<lambda>i. p * ?q ^ i) [0..<30]"
  let ?U = "\<lambda>i. ema_at (2 / 13) ((^) ?q) i - ema_at (2 / 27) ((^) ?q) i"
  let ?E7 = "ema_at (1 / 4) ((^) ?q) 29" and ?E21 = "ema_at (1 / 11) ((^) ?q) 29"
  have long: "2 \<le> length (tail 30 (rising_window p v))"
    by (simp add: tail_def rising_window_def)
  have ema_last: "last (ewm_values a ?c) = p * ema_at a ((^) ?q) 29" for a
    unfolding ewm_values_upt ema_at_scale_fun by (simp add: last_map)
  have dp: "fmul (fdiv (Fin (p * ?E7 - p * ?E21)) (Fin (p * ?E21))) (Fin 100) =
              Fin ((?E7 - ?E21) / ?E21 * 100)"
    using p unit_ema_gap[THEN conjunct1] by (rule ema_diff_percent_scale)
  have ema: "ema_rule (Fin ((?E7 - ?E21) / ?E21 * 100)) = [1]"
    using unit_ema_gap by (simp add: ema_rule_def fgt_def)
  have macd: "map2 (-) (ewm_values (2 / 13) ?c) (ewm_values (2 / 27) ?c) = map (\<lambda>i. p * ?U i) [0..<30]"
    unfolding ewm_values_upt ema_at_scale_fun by (simp add: map2_map_map right_diff_distrib)
  have m1: "last (map (\<lambda>i. p * ?U i) [0..<30]) = p * ?U 29"
    by (simp add: last_map)
  have m2: "map (\<lambda>i. p * ?U i) [0..<30] ! (length (map (\<lambda>i. p * ?U i) [0..<30]) - 2) = p * ?U 28"
    by simp
  have s1: "last (ewm_values a (map (\<lambda>i. p * ?U i) [0..<30])) = p * ema_at a ?U 29" for a
    unfolding ewm_values_upt ema_at_scale_fun by (simp add: last_map)
  have rule_macd: "macd_rule (p * ?U 29 - p * ema_at (1 / 5) ?U 29) (p * ?U 29 - p * ?U 28) = [1, 1]"
    using p unit_macd
    by (simp add: macd_rule_def right_diff_distrib[symmetric] zero_less_mult_iff)
  have w: "take 20 (drop (length ?c - 20) ?c) = map ((*) p) (map ((^) ?q) [10..<30])"
    by (simp add: drop_map take_map comp_def)
  have lc: "20 \<le> length ?c" by simp
  have lastc: "last ?c = p * ?q ^ 29"
    by (simp add: last_map)
  have bb: "bb_rule (p * ?q ^ 29)
              (last (snd (calculate_bollinger_bands ?c 20)))
              (last (fst (calculate_bollinger_bands ?c 20))) = ([], ''normal'')"
    unfolding last_bands[OF lc] w
    using rising_inside_bands[OF p] by (simp add: bb_rule_def fgt_def)
  show ?thesis
    unfolding score_window_long[OF long] rising_closes rising_volume_strength[OF v]
      ema_last macd m1 m2 s1 lastc rising_rsi[OF p] bb
    using dp ema rule_macd
    by (simp add: rsi_rule_def fgt_def strength_of_def del: fdiv.simps fmul.simps)
qed


lemma rising_window_result:
  assumes p: "0 < p" and v: "0 < v"
  shows "\<exists>s. score_window (rising_window p v) 30 = Inr s
           \<and> volume_strength s = 3
           \<and> ema_signals s = [1] \<and> macd_signals s = [1, 1]
           \<and> last_rsi s = Fin 100 \<and> rsi_signals s = [- 2, - 1]
           \<and> bb_signals s = []
           \<and> trend_signals s = [1, 1, 1, - 2, - 1] \<and> trend_strength s = 0
           \<and> fst (analyze_timeframe (Some (rising_window p v)) 30) = NEUTRAL
           \<and> fst (snd (snd (analyze_timeframe (Some (rising_window p v)) 30))) ''confidence'' =
               Some (Num (Fin 50))
           \<and> snd (snd (snd (analyze_timeframe (Some (rising_window p v)) 30))) = None"
proof -
  from rising_window_scoring[OF p v] obtain s where s:
    "score_window (rising_window p v) 30 = Inr s" "volume_strength s = 3"
    "ema_signals s = [1]" "macd_signals s = [1, 1]" "last_rsi s = Fin 100"
    "rsi_signals s = [- 2, - 1]" "bb_signals s = []"
    "trend_signals s = [1, 1, 1, - 2, - 1]" "trend_strength s = 0"
    by blast
  have len: "(30::int) \<le> int (length (rising_window p v))"
    by (simp add: rising_window_def)
  have res: "analyze_timeframe (Some (rising_window p v)) 30 =
               (signal_of (trend_strength s), price_change s, indicators_of s 30, None)"
    unfolding analyze_timeframe_scored[OF len] s(1) by simp
  have sig: "signal_of (trend_strength s) = NEUTRAL"
    by (simp add: s(9) signal_of_def)
  have conf: "indicators_of s 30 ''confidence'' = Some (Num (Fin 50))"
    using reported_confidence[OF s(1)] by (simp add: s(9) confidence_of_def)
  show ?thesis
    using s sig conf unfolding res by (intro exI[of _ s]) simp
qed

text \<open>
  C2, as amended. Take 30 samples whose close price starts at any positive \<open>p\<close> and is
  multiplied by 1.001 at each step, with a positive volume \<open>v\<close> on every sample but the
  last, which has \<open>2 * v\<close>. The window is scored without a fault and the volume strength
  is 3 (the ratio is 60/31). The EMA rule contributes +1 and the MACD rule +1 and +1. No
  price falls, so the average loss is the negative zero, the RSI is 100 and the RSI rule
  contributes -2 and -1. The last price lies inside the Bollinger bands. The contributions
  sum to 0, so the trend strength is 0, the signal is NEUTRAL and not BUY, and the reported
  confidence is exactly 50.
\<close>

theorem rising_window_scored:
  assumes "0 < p" and "0 < v"
  shows "\<exists>s. score_window (rising_window p v) 30 = Inr s
           \<and> volume_strength s = 3
           \<and> ema_signals s = [1] \<and> macd_signals s = [1, 1]
           \<and> last_rsi s = Fin 100 \<and> rsi_signals s = [- 2, - 1]
           \<and> bb_signals s = []
           \<and> trend_signals s = [1, 1, 1, - 2, - 1] \<and> trend_strength s = 0
           \<and> fst (analyze_timeframe (Some (rising_window p v)) 30) = NEUTRAL
           \<and> fst (snd (snd (analyze_timeframe (Some (rising_window p v)) 30))) ''confidence'' =
               Some (Num (Fin 50))
           \<and> snd (snd (snd (analyze_timeframe (Some (rising_window p v)) 30))) = None"
  using assms by (rule rising_window_result)

theorem rising_window_scored_witness:
  "\<exists>s. score_window (rising_window 250 40) 30 = Inr s
       \<and> volume_strength s = 3
       \<and> trend_signals s = [1, 1, 1, - 2, - 1] \<and> trend_strength s = 0
       \<and> fst (analyze_timeframe (Some (rising_window 250 40)) 30) = NEUTRAL
       \<and> fst (snd (snd (analyze_timeframe (Some (rising_window 250 40)) 30))) ''confidence'' =
           Some (Num (Fin 50))"
proof -
  have "(0::real) < 250" and "(0::real) < 40"
    by simp_all
  from rising_window_scored[OF this] show ?thesis
    by blast
qed

text \<open>
  C2 as stated fails on the rising window that starts at price 100 with volume 1 (and
  volume 2 on the last sample): the signal is NEUTRAL and the confidence is 50.
\<close>

theorem rising_window_not_buy_counterexample:
  "fst (analyze_timeframe (Some (rising_window 100 1)) 30) = NEUTRAL
   \<and> fst (analyze_timeframe (Some (rising_window 100 1)) 30) \<noteq> BUY
   \<and> fst (snd (snd (analyze_timeframe (Some (rising_window 100 1)) 30))) ''confidence'' =
       Some (Num (Fin 50))"
proof -
  have "(0::real) < 100" and "(0::real) < 1"
    by simp_all
  from rising_window_result[OF this] show ?thesis
    by auto
qed

end
